theory Spec2Isabelle
  imports Complex_Main
begin

section \<open>The CryoSIM action-table planner\<close>

text \<open>
  A shallow embedding of \<^verbatim>\<open>CryoSIM.generateActions\<close> and \<^verbatim>\<open>CryoSIM.expose\<close>
  (\<^verbatim>\<open>cockpit/experiment/cryosim.py\<close>) and of \<^verbatim>\<open>_MicroscopeStageAxis.getMovementTime\<close>
  (\<^verbatim>\<open>cockpit/devices/microscopeDevice.py\<close>).

  Times and positions are exact rationals. Python computes them as \<^verbatim>\<open>float\<close> and
  \<^verbatim>\<open>decimal.Decimal\<close> values; the rounding of these operations is not modelled, with one
  exception: the float quotient \<^verbatim>\<open>zHeight / sliceHeight\<close>, whose ceiling is the number of
  Z slices, is rounded to the nearest double as the float division does.
  Every exception the code can raise on these paths is a value of \<open>error\<close>, and a
  function that can raise returns \<open>error + 'a\<close>; the state reached when an exception
  leaves a function is not returned.
\<close>

subsection \<open>Handlers, actions, errors\<close>

text \<open>
  Device handlers are Python objects compared by identity: a kind and a number.
  \<open>NoneHandler\<close> is Python's \<^verbatim>\<open>None\<close> in a place where a handler is expected.
\<close>

datatype handler = Camera nat | Light nat | Positioner nat | AnalogClient nat | NoneHandler

text \<open>
  The third argument of \<^verbatim>\<open>addAction\<close>, tagged as the spec's Action Entry has it:
  \<^verbatim>\<open>True\<close> for a light or a camera is \<open>SetDigital True\<close>, a Z position is
  \<open>MoveAbsolute\<close>, the sequence index sent to a pattern-generator client is \<open>Custom\<close>.
\<close>

datatype actionPayload =
  SetDigital bool | SetAnalog rat | MoveAbsolute rat | MoveRelative rat | Custom nat

record action =
  timestamp :: rat
  target :: handler
  payload :: actionPayload

type_synonym actionTable = "action list"

datatype error = OutOfOrder | AttributeError | KeyError | ZeroDivisionError | OverflowError

definition bindE :: "error + 'a \<Rightarrow> ('a \<Rightarrow> error + 'b) \<Rightarrow> error + 'b" where
  "bindE m f = (case m of Inl e \<Rightarrow> Inl e | Inr x \<Rightarrow> f x)"

text \<open>A \<^verbatim>\<open>for x in xs:\<close> loop over a body that can raise; the first exception ends it.\<close>

fun forEachM :: "('a \<Rightarrow> 's \<Rightarrow> error + 's) \<Rightarrow> 'a list \<Rightarrow> 's \<Rightarrow> error + 's" where
  "forEachM f [] s = Inr s"
| "forEachM f (x # xs) s = (case f x s of Inl e \<Rightarrow> Inl e | Inr s' \<Rightarrow> forEachM f xs s')"

text \<open>Python's \<^verbatim>\<open>range(n)\<close>: empty when \<open>n \<le> 0\<close>.\<close>

definition rangeN :: "int \<Rightarrow> nat list" where
  "rangeN n = [0..<nat n]"

subsection \<open>Python floats\<close>

text \<open>
  A finite float is the rational it stands for. \<open>roundToDouble\<close> is the rounding of an
  exact result to the nearest IEEE 754 double (53 significant bits, ties to the even
  significand, subnormal numbers below \<open>2^-1022\<close>); it is \<open>None\<close> where the result
  overflows to infinity.
\<close>

text \<open>The number of binary digits of a positive integer, as \<^verbatim>\<open>int.bit_length\<close>.\<close>

function bitLength :: "int \<Rightarrow> nat" where
  "bitLength n = (if n \<le> 0 then 0 else Suc (bitLength (n div 2)))"
  by pat_completeness simp
termination
proof (relation "measure nat")
  show "wf (measure nat)" by simp
next
  fix n :: int
  assume "\<not> n \<le> 0"
  then have "n div 2 < n" by linarith
  with \<open>\<not> n \<le> 0\<close> show "(n div 2, n) \<in> measure nat" by simp
qed

declare bitLength.simps [simp del]

text \<open>The exponent \<open>e\<close> of a positive \<open>x\<close>: \<open>2^e \<le> x < 2^(e+1)\<close>.\<close>

definition floorLog2 :: "rat \<Rightarrow> int" where
  "floorLog2 x =
     (if 1 \<le> x then int (bitLength \<lfloor>x\<rfloor>) - 1
      else - int (bitLength (\<lceil>1 / x\<rceil> - 1)))"

definition twoPow :: "int \<Rightarrow> rat" where
  "twoPow e = (if 0 \<le> e then 2 ^ nat e else 1 / 2 ^ nat (- e))"

text \<open>Rounding to the nearest integer, a tie to the even one.\<close>

definition roundHalfEven :: "rat \<Rightarrow> int" where
  "roundHalfEven r =
     (let f = \<lfloor>r\<rfloor>; d = r - of_int f
      in if d < 1 / 2 then f else if 1 / 2 < d then f + 1 else if even f then f else f + 1)"

definition roundToDouble :: "rat \<Rightarrow> rat option" where
  "roundToDouble x =
     (if x = 0 then Some 0
      else let e = floorLog2 \<bar>x\<bar> in
        if 1024 \<le> e then None
        else let quantum = twoPow (max e (- 1022) - 52);
                 m = roundHalfEven (\<bar>x\<bar> / quantum)
             in if e = 1023 \<and> m = 2 ^ 53 then None
                else Some (sgn x * of_int m * quantum))"

text \<open>
  Float division, \<^verbatim>\<open>a / b\<close>: it raises for a zero divisor, and otherwise gives the
  exact quotient rounded to a double (or infinity).
\<close>

definition floatDiv :: "rat \<Rightarrow> rat \<Rightarrow> error + rat option" where
  "floatDiv a b = (if b = 0 then Inl ZeroDivisionError else Inr (roundToDouble (a / b)))"

text \<open>The float literal \<^verbatim>\<open>1e-6\<close>: the double nearest to one millionth.\<close>

definition float1eMinus6 :: rat where
  "float1eMinus6 = 4722366482869645 / 4722366482869645213696"

subsection \<open>The action table\<close>

text \<open>
  Modelled from the spec: \<^verbatim>\<open>cockpit/experiment/actionTable.py\<close> (class ActionTable) is
  not among the sources. The table is the ordered sequence of its entries, in append order.
  \<open>getLastActionFor\<close> is the most recently appended entry for a target. \<open>addAction\<close> is
  the spec's \<^verbatim>\<open>append(timestamp, target, payload)\<close>: it fails with \<open>OutOfOrder\<close> if the
  timestamp is strictly less than the timestamp of the most recently appended entry for
  that same target, and otherwise appends the entry.
\<close>

definition getLastActionFor :: "actionTable \<Rightarrow> handler \<Rightarrow> action option" where
  "getLastActionFor table h =
     (let es = filter (\<lambda>a. target a = h) table in if es = [] then None else Some (last es))"

definition addAction :: "rat \<Rightarrow> handler \<Rightarrow> actionPayload \<Rightarrow> actionTable \<Rightarrow> error + actionTable" where
  "addAction t h p table =
     (case getLastActionFor table h of
        None \<Rightarrow> Inr (table @ [\<lparr>timestamp = t, target = h, payload = p\<rparr>])
      | Some a \<Rightarrow>
          if t < timestamp a then Inl OutOfOrder
          else Inr (table @ [\<lparr>timestamp = t, target = h, payload = p\<rparr>]))"

subsection \<open>The timing oracle\<close>

text \<open>
  The timing queries the planner sends to its handlers. \<open>getExposureTime\<close> and
  \<open>getTimeBetweenExposures\<close> are the camera handler's methods. \<open>getMovementTime\<close> is
  the positioner handler's callback; it is \<open>None\<close> where the callback raises (the stage
  axis below raises ZeroDivisionError when its velocity is zero).
  \<open>getResetTime\<close> is the reset duration of the spec's reset phase.
\<close>

record timingOracle =
  getExposureTime :: "handler \<Rightarrow> rat"
  getTimeBetweenExposures :: "handler \<Rightarrow> rat"
  getMovementTime :: "handler \<Rightarrow> rat \<Rightarrow> rat \<Rightarrow> (rat \<times> rat) option"
  getResetTime :: "handler \<Rightarrow> rat"

text \<open>
  \<^verbatim>\<open>self.zPositioner.getMovementTime(a, b)\<close>: an AttributeError when the positioner
  is \<^verbatim>\<open>None\<close>, and the callback's exception when it raises.
\<close>

definition handlerGetMovementTime ::
  "timingOracle \<Rightarrow> handler \<Rightarrow> rat \<Rightarrow> rat \<Rightarrow> error + (rat \<times> rat)" where
  "handlerGetMovementTime orc z a b =
     (if z = NoneHandler then Inl AttributeError
      else case getMovementTime orc z a b of
             None \<Rightarrow> Inl ZeroDivisionError
           | Some moveAndSettle \<Rightarrow> Inr moveAndSettle)"

text \<open>
  Modelled from the spec: \<^verbatim>\<open>Experiment.getTimeWhenCameraCanExpose\<close>
  (\<^verbatim>\<open>cockpit/experiment/experiment.py\<close>) is not among the sources. It is the spec's
  \<^verbatim>\<open>earliest_available\<close>: the timestamp of the last entry scheduled against the camera
  plus the camera's busy duration (exposure time plus inter-exposure gap), and zero if
  the camera has no entry yet.
\<close>

definition getTimeWhenCameraCanExpose :: "timingOracle \<Rightarrow> actionTable \<Rightarrow> handler \<Rightarrow> rat" where
  "getTimeWhenCameraCanExpose orc table camera =
     (case getLastActionFor table camera of
        None \<Rightarrow> 0
      | Some a \<Rightarrow> timestamp a + (getExposureTime orc camera + getTimeBetweenExposures orc camera))"

subsection \<open>The experiment object\<close>

text \<open>An executor handler (\<^verbatim>\<open>slmHandler\<close>, \<^verbatim>\<open>rotorHandler\<close>) with its analog clients.\<close>

record executor =
  analogClients :: "handler list"

text \<open>
  The fields of \<^verbatim>\<open>self\<close> that \<^verbatim>\<open>generateActions\<close> and \<^verbatim>\<open>expose\<close> read or write.
  The two dictionaries are partial maps; reading a missing key raises KeyError.
\<close>

record cryoSIM =
  cameras :: "handler list"
  lights :: "handler list"
  exposureSettings :: "(handler list \<times> (handler \<times> rat) list) list"
  zPositioner :: handler
  zStart :: rat
  zHeight :: rat
  sliceHeight :: rat
  numReps :: int
  numAngles :: int
  numPhases :: int
  sequence :: "(rat \<times> rat \<times> rat) list"
  slmHandler :: "executor option"
  rotorHandler :: "executor option"
  cameraToIsReady :: "handler \<rightharpoonup> bool"
  cameraToImageCount :: "handler \<rightharpoonup> int"

text \<open>\<^verbatim>\<open>CryoSIM.__init__\<close>, lines 31 to 37: the (angle, phase, wavelength) sequence.\<close>

definition mkSequence :: "int \<Rightarrow> int \<Rightarrow> (rat \<times> rat \<times> rat) list" where
  "mkSequence nAngles nPhases =
     concat (map (\<lambda>i. map (\<lambda>j. (of_nat i * 180 / of_int nAngles,
                                 of_nat j * 360 / of_int nPhases,
                                 488 / 10 ^ 9))
                          (rangeN nPhases))
                 (rangeN nAngles))"

subsection \<open>expose\<close>

text \<open>
  \<^verbatim>\<open>expose\<close> asks \<^verbatim>\<open>self.getTimeWhenCameraCanExpose(table, camera)\<close> when each camera
  is ready. That method is not among the sources: \<open>expose\<close> takes it as its first
  parameter, \<open>whenCanExpose\<close>. \<open>generateActions\<close> below runs \<open>expose\<close> with the
  spec's \<^verbatim>\<open>earliest_available\<close>.
\<close>

text \<open>Lines 146 to 158: the scan of the cameras for \<^verbatim>\<open>max_acq_time\<close> and \<^verbatim>\<open>last_ready\<close>.\<close>

fun exposeScan ::
  "(actionTable \<Rightarrow> handler \<Rightarrow> rat) \<Rightarrow> timingOracle \<Rightarrow> actionTable \<Rightarrow> handler list
     \<Rightarrow> rat \<times> rat \<Rightarrow> rat \<times> rat" where
  "exposeScan whenCanExpose orc table [] (max_acq_time, last_ready) = (max_acq_time, last_ready)"
| "exposeScan whenCanExpose orc table (camera # cams) (max_acq_time, last_ready) =
     (let exposure = getExposureTime orc camera;
          waiting = getTimeBetweenExposures orc camera;
          max_acq_time' =
            (if max_acq_time < exposure + waiting then exposure + waiting else max_acq_time);
          ready = whenCanExpose table camera;
          last_ready' = (if last_ready < ready then ready else last_ready)
      in exposeScan whenCanExpose orc table cams (max_acq_time', last_ready'))"

text \<open>Lines 164 and 165: trigger one camera and count its image.\<close>

definition triggerCamera ::
  "rat \<Rightarrow> handler \<Rightarrow> actionTable \<times> (handler \<rightharpoonup> int) \<Rightarrow> error + actionTable \<times> (handler \<rightharpoonup> int)" where
  "triggerCamera curTime camera = (\<lambda>(table, counts).
     bindE (addAction curTime camera (SetDigital True) table) (\<lambda>table'.
       case counts camera of
         None \<Rightarrow> Inl KeyError
       | Some n \<Rightarrow> Inr (table', counts(camera \<mapsto> n + 1))))"

text \<open>Lines 145 to 170.\<close>

definition expose ::
  "(actionTable \<Rightarrow> handler \<Rightarrow> rat) \<Rightarrow> timingOracle \<Rightarrow> cryoSIM \<Rightarrow> rat \<Rightarrow> handler list
     \<Rightarrow> actionTable \<Rightarrow> error + (rat \<times> actionTable \<times> cryoSIM)" where
  "expose whenCanExpose orc self curTime cams table =
     (case exposeScan whenCanExpose orc table cams (0, 0) of (max_acq_time, last_ready) \<Rightarrow>
      bindE (forEachM (\<lambda>light. addAction curTime light (SetDigital True)) (lights self) table)
        (\<lambda>table1.
      bindE (forEachM (triggerCamera curTime) cams (table1, cameraToImageCount self))
        (\<lambda>(table2, counts).
      Inr (max last_ready (curTime + max_acq_time), table2,
           self\<lparr>cameraToImageCount := counts\<rparr>))))"

subsection \<open>generateActions\<close>

text \<open>
  Lines 72 to 75: the cameras that are not ready. The Python collects them in a set;
  the model keeps them without duplicates, in the order of \<^verbatim>\<open>self.cameras\<close>.
\<close>

fun camsToResetOf :: "(handler \<rightharpoonup> bool) \<Rightarrow> handler list \<Rightarrow> error + handler list" where
  "camsToResetOf ready [] = Inr []"
| "camsToResetOf ready (camera # cams) =
     (case ready camera of
        None \<Rightarrow> Inl KeyError
      | Some r \<Rightarrow>
          bindE (camsToResetOf ready cams) (\<lambda>rest.
            Inr (if r then rest else camera # removeAll camera rest)))"

text \<open>
  Modelled from the spec: \<^verbatim>\<open>Experiment.resetCams\<close> (\<^verbatim>\<open>cockpit/experiment/experiment.py\<close>)
  is not among the sources. It is the spec's reset phase: for every camera that is not
  ready, a reset action at the cursor (which is 0 there); the cursor is then advanced
  past the reset duration the oracle reports for each of these cameras.
\<close>

definition resetCams ::
  "timingOracle \<Rightarrow> rat \<Rightarrow> handler list \<Rightarrow> actionTable \<Rightarrow> error + (rat \<times> actionTable)" where
  "resetCams orc curTime cams table =
     bindE (forEachM (\<lambda>camera. addAction curTime camera (SetDigital True)) cams table)
       (\<lambda>table'.
          Inr (fold (\<lambda>camera t. max t (curTime + getResetTime orc camera)) cams curTime,
               table'))"

text \<open>
  Lines 80 to 84. The float division raises when the slice height is zero;
  \<^verbatim>\<open>int(np.ceil(...))\<close> raises OverflowError when the quotient is infinite.
\<close>

definition numZSlices :: "cryoSIM \<Rightarrow> error + int" where
  "numZSlices self =
     bindE (floatDiv (zHeight self) (sliceHeight self)) (\<lambda>quotient.
       case quotient of
         None \<Rightarrow> Inl OverflowError
       | Some q \<Rightarrow>
           let n = \<lceil>q\<rceil>
           in Inr (if zHeight self > float1eMinus6 then n + 1 else n))"

text \<open>Lines 89 to 97: the move to the slice's altitude.\<close>

definition zMove ::
  "timingOracle \<Rightarrow> cryoSIM \<Rightarrow> rat \<Rightarrow> rat \<times> actionTable \<times> rat option
     \<Rightarrow> error + (rat \<times> actionTable \<times> rat option)" where
  "zMove orc self zTarget = (\<lambda>(curTime, table, prevAltitude).
     bindE (case prevAltitude of
              None \<Rightarrow> Inr (0, 0)
            | Some prev \<Rightarrow> handlerGetMovementTime orc (zPositioner self) prev zTarget)
       (\<lambda>(motionTime, stabilizationTime).
     bindE (addAction (curTime + motionTime) (zPositioner self) (MoveAbsolute zTarget) table)
       (\<lambda>table'.
     Inr (curTime + motionTime + stabilizationTime, table', Some zTarget))))"

text \<open>Lines 100 to 111: the index of the step goes to every analog client of a handler.\<close>

definition triggerClients ::
  "executor option \<Rightarrow> rat \<Rightarrow> nat \<Rightarrow> actionTable \<Rightarrow> error + actionTable" where
  "triggerClients h curTime i table =
     (case h of
        None \<Rightarrow> Inr table
      | Some ex \<Rightarrow>
          if length (analogClients ex) > 0
          then forEachM (\<lambda>client. addAction curTime client (Custom i)) (analogClients ex) table
          else Inr table)"

text \<open>Lines 99 to 115: one step of the angle and phase sequence.\<close>

definition sequenceStep ::
  "timingOracle \<Rightarrow> nat \<Rightarrow> rat \<times> actionTable \<times> cryoSIM
     \<Rightarrow> error + (rat \<times> actionTable \<times> cryoSIM)" where
  "sequenceStep orc i = (\<lambda>(curTime, table, self).
     bindE (triggerClients (slmHandler self) curTime i table) (\<lambda>table1.
     bindE (triggerClients (rotorHandler self) curTime i table1) (\<lambda>table2.
     bindE (expose (getTimeWhenCameraCanExpose orc) orc self curTime (cameras self) table2)
       (\<lambda>(curTime', table3, self').
     Inr (curTime' + 5, table3, self')))))"

text \<open>Lines 85 to 118: one iteration of the Z-slice loop.\<close>

definition zSlice ::
  "timingOracle \<Rightarrow> nat \<Rightarrow> rat \<times> actionTable \<times> cryoSIM \<times> rat option
     \<Rightarrow> error + (rat \<times> actionTable \<times> cryoSIM \<times> rat option)" where
  "zSlice orc zIndex = (\<lambda>(curTime, table, self, prevAltitude).
     let zTarget = zStart self + sliceHeight self * of_nat zIndex in
     bindE (zMove orc self zTarget (curTime, table, prevAltitude))
       (\<lambda>(curTime1, table1, prevAltitude1).
     bindE (forEachM (sequenceStep orc) [0..<length (sequence self)] (curTime1, table1, self))
       (\<lambda>(curTime2, table2, self2).
     bindE (addAction curTime2 (zPositioner self2) (MoveAbsolute zTarget) table2)
       (\<lambda>table3.
     Inr (curTime2, table3, self2, prevAltitude1)))))"

text \<open>Lines 129 to 135.\<close>

definition cameraReadyTime :: "timingOracle \<Rightarrow> cryoSIM \<Rightarrow> actionTable \<Rightarrow> rat" where
  "cameraReadyTime orc self table =
     (if numReps self > 1
      then fold (\<lambda>(cams, lightTimePairs) t.
                   fold (\<lambda>camera t'. max t' (getTimeWhenCameraCanExpose orc table camera)) cams t)
                (exposureSettings self) 0
      else 0)"

text \<open>Lines 120 to 142: the move back to the start, and the final hold.\<close>

definition returnPhase ::
  "timingOracle \<Rightarrow> rat \<times> actionTable \<times> cryoSIM \<Rightarrow> error + (actionTable \<times> cryoSIM)" where
  "returnPhase orc = (\<lambda>(curTime, table, self).
     bindE (handlerGetMovementTime orc (zPositioner self) (zHeight self) 0)
       (\<lambda>(motionTime, stabilizationTime).
     bindE (addAction (curTime + motionTime) (zPositioner self) (MoveAbsolute (zStart self)) table)
       (\<lambda>table1.
     bindE (addAction (max (curTime + motionTime + stabilizationTime)
                           (cameraReadyTime orc self table1))
                      (zPositioner self) (MoveAbsolute (zStart self)) table1)
       (\<lambda>table2.
     Inr (table2, self)))))"

text \<open>Lines 69 to 77: the reset phase. It starts from the empty table at time 0.\<close>

definition resetPhase :: "timingOracle \<Rightarrow> cryoSIM \<Rightarrow> error + (rat \<times> actionTable)" where
  "resetPhase orc self =
     bindE (camsToResetOf (cameraToIsReady self) (cameras self)) (\<lambda>camsToReset.
     if camsToReset \<noteq> [] then resetCams orc 0 camsToReset [] else Inr (0, []))"

text \<open>Lines 69 to 118: the reset phase and the slice loop, up to the return phase.\<close>

definition sliceLoop ::
  "timingOracle \<Rightarrow> cryoSIM \<Rightarrow> error + (rat \<times> actionTable \<times> cryoSIM \<times> rat option)" where
  "sliceLoop orc self =
     bindE (resetPhase orc self) (\<lambda>(curTime, table).
     bindE (numZSlices self) (\<lambda>n.
     forEachM (zSlice orc) (rangeN n) (curTime, table, self, None)))"

definition generateActions :: "timingOracle \<Rightarrow> cryoSIM \<Rightarrow> error + (actionTable \<times> cryoSIM)" where
  "generateActions orc self =
     bindE (sliceLoop orc self) (\<lambda>(curTime, table, self', prevAltitude).
     returnPhase orc (curTime, table, self'))"

subsection \<open>The stage axis\<close>

text \<open>
  \<^verbatim>\<open>_MicroscopeStageAxis\<close>: the two configuration entries \<^verbatim>\<open>getMovementTime\<close> reads
  (absent entries take the defaults 10 and 1000) and the velocity attribute of the
  wrapped axis, when it has one.
\<close>

record stageAxis =
  settlingtime :: "rat option"
  velocity :: "rat option"
  axisVelocity :: "rat option"

text \<open>Lines 498 to 503. The division raises when the velocity is zero.\<close>

definition axisGetMovementTime ::
  "stageAxis \<Rightarrow> nat \<Rightarrow> rat \<Rightarrow> rat \<Rightarrow> error + (rat \<times> rat)" where
  "axisGetMovementTime self axis start end' =
     (let dt = (case settlingtime self of None \<Rightarrow> 10 | Some v \<Rightarrow> v);
          vel0 = (case velocity self of None \<Rightarrow> 1000 | Some v \<Rightarrow> v);
          vel = (case axisVelocity self of Some v \<Rightarrow> v | None \<Rightarrow> vel0)
      in if vel = 0 then Inl ZeroDivisionError
         else Inr (\<bar>end' - start\<bar> / vel, dt))"

subsection \<open>Predicates on tables and oracles\<close>

text \<open>Every entry of the table is scheduled at the cursor or before it.\<close>

definition upTo :: "actionTable \<Rightarrow> rat \<Rightarrow> bool" where
  "upTo table cur \<longleftrightarrow> (\<forall>a \<in> set table. timestamp a \<le> cur)"

text \<open>
  A step from cursor \<open>cur\<close> and table \<open>table\<close> to \<open>cur'\<close> and \<open>table'\<close> that only
  appends, in non-decreasing timestamp order, entries scheduled between the two cursors.
\<close>

definition extendsTo :: "rat \<Rightarrow> actionTable \<Rightarrow> rat \<Rightarrow> actionTable \<Rightarrow> bool" where
  "extendsTo cur table cur' table' \<longleftrightarrow>
     cur \<le> cur' \<and>
     (\<exists>rest. table' = table @ rest \<and> sorted (map timestamp rest) \<and>
        (\<forall>a \<in> set rest. cur \<le> timestamp a \<and> timestamp a \<le> cur'))"

text \<open>The timestamps of the entries that target one resource, in append order.\<close>

definition timestampsFor :: "actionTable \<Rightarrow> handler \<Rightarrow> rat list" where
  "timestampsFor table h = map timestamp (filter (\<lambda>a. target a = h) table)"

text \<open>Every query of the oracle that returns a time returns a non-negative one.\<close>

definition nonNegative :: "timingOracle \<Rightarrow> bool" where
  "nonNegative orc \<longleftrightarrow>
     (\<forall>c. 0 \<le> getExposureTime orc c) \<and>
     (\<forall>c. 0 \<le> getTimeBetweenExposures orc c) \<and>
     (\<forall>c. 0 \<le> getResetTime orc c) \<and>
     (\<forall>z a b m s. getMovementTime orc z a b = Some (m, s) \<longrightarrow> 0 \<le> m \<and> 0 \<le> s)"

text \<open>An executor handler that drives no pattern-generator client: absent, or without clients.\<close>

definition noClients :: "executor option \<Rightarrow> bool" where
  "noClients h \<longleftrightarrow> (case h of None \<Rightarrow> True | Some ex \<Rightarrow> analogClients ex = [])"

text \<open>Two states of the experiment object that differ at most in the image counts.\<close>

definition sameButCounts :: "cryoSIM \<Rightarrow> cryoSIM \<Rightarrow> bool" where
  "sameButCounts self self' \<longleftrightarrow>
     (\<exists>counts. self' = self\<lparr>cameraToImageCount := counts\<rparr>
        \<and> dom counts = dom (cameraToImageCount self))"

text \<open>
  The states of two runs, between two statements, agree: the same cursor, the same table
  (the same previous altitude), and experiment objects that differ at most in the image
  counts. One relation for each shape of state the loops thread.
\<close>

definition sameCounting ::
  "actionTable \<times> (handler \<rightharpoonup> int) \<Rightarrow> actionTable \<times> (handler \<rightharpoonup> int) \<Rightarrow> bool" where
  "sameCounting x y \<longleftrightarrow> fst x = fst y \<and> dom (snd x) = dom (snd y)"

definition sameStep ::
  "rat \<times> actionTable \<times> cryoSIM \<Rightarrow> rat \<times> actionTable \<times> cryoSIM \<Rightarrow> bool" where
  "sameStep x y \<longleftrightarrow>
     fst x = fst y \<and> fst (snd x) = fst (snd y) \<and> sameButCounts (snd (snd x)) (snd (snd y))"

definition sameSlice ::
  "rat \<times> actionTable \<times> cryoSIM \<times> rat option
     \<Rightarrow> rat \<times> actionTable \<times> cryoSIM \<times> rat option \<Rightarrow> bool" where
  "sameSlice x y \<longleftrightarrow>
     fst x = fst y \<and> fst (snd x) = fst (snd y)
     \<and> sameButCounts (fst (snd (snd x))) (fst (snd (snd y)))
     \<and> snd (snd (snd x)) = snd (snd (snd y))"

definition sameRun :: "actionTable \<times> cryoSIM \<Rightarrow> actionTable \<times> cryoSIM \<Rightarrow> bool" where
  "sameRun x y \<longleftrightarrow> fst x = fst y \<and> sameButCounts (snd x) (snd y)"

subsection \<open>Concrete devices and plans\<close>

text \<open>A stage axis configured with a negative settling time.\<close>

definition badAxis :: stageAxis where
  "badAxis = \<lparr>settlingtime = Some (- 1), velocity = None, axisVelocity = None\<rparr>"

text \<open>An axis that reports its own velocity, half a micron per time unit.\<close>

definition slowAxis :: stageAxis where
  "slowAxis = \<lparr>settlingtime = Some 5, velocity = Some 1000, axisVelocity = Some (1 / 2)\<rparr>"

text \<open>
  The callback a positioner handler gets from a stage axis (as \<^verbatim>\<open>_MicroscopeStageAxis\<close>
  registers it, for the Z axis, index 2).
\<close>

definition axisCallback :: "stageAxis \<Rightarrow> handler \<Rightarrow> rat \<Rightarrow> rat \<Rightarrow> (rat \<times> rat) option" where
  "axisCallback ax = (\<lambda>z start end'.
     case axisGetMovementTime ax 2 start end' of Inl e \<Rightarrow> None | Inr r \<Rightarrow> Some r)"

text \<open>An axis with the default configuration: velocity 1000, settling time 10.\<close>

definition defaultAxis :: stageAxis where
  "defaultAxis = \<lparr>settlingtime = None, velocity = None, axisVelocity = None\<rparr>"

text \<open>An axis with velocity 1 and no settling time.\<close>

definition unitAxis :: stageAxis where
  "unitAxis = \<lparr>settlingtime = Some 0, velocity = Some 1, axisVelocity = None\<rparr>"

text \<open>Cameras with exposure time 50 and gap 10, on a stage with the default configuration.\<close>

definition scenarioOracle :: timingOracle where
  "scenarioOracle =
     \<lparr>getExposureTime = (\<lambda>c. 50), getTimeBetweenExposures = (\<lambda>c. 10),
      getMovementTime = axisCallback defaultAxis, getResetTime = (\<lambda>c. 0)\<rparr>"

text \<open>The same cameras on a stage whose every move takes 20 and settles in 5.\<close>

definition fixedOracle :: timingOracle where
  "fixedOracle =
     \<lparr>getExposureTime = (\<lambda>c. 50), getTimeBetweenExposures = (\<lambda>c. 10),
      getMovementTime = (\<lambda>z a b. Some (20, 5)), getResetTime = (\<lambda>c. 0)\<rparr>"

text \<open>The same cameras on the stage with velocity 1.\<close>

definition unitOracle :: timingOracle where
  "unitOracle =
     \<lparr>getExposureTime = (\<lambda>c. 50), getTimeBetweenExposures = (\<lambda>c. 10),
      getMovementTime = axisCallback unitAxis, getResetTime = (\<lambda>c. 0)\<rparr>"

text \<open>
  One ready camera, one light, no pattern-generator clients, two angles and one phase,
  and a single slice: stack height and slice height are both \<open>2^-20\<close>, below \<open>1e-6\<close>.
\<close>

definition scenarioPlan :: cryoSIM where
  "scenarioPlan =
     \<lparr>cameras = [Camera 0], lights = [Light 0],
      exposureSettings = [([Camera 0], [(Light 0, 50)])],
      zPositioner = Positioner 2, zStart = 0, zHeight = 1 / 1048576, sliceHeight = 1 / 1048576,
      numReps = 1, numAngles = 2, numPhases = 1, sequence = mkSequence 2 1,
      slmHandler = None, rotorHandler = None,
      cameraToIsReady = [Camera 0 \<mapsto> True], cameraToImageCount = [Camera 0 \<mapsto> 0]\<rparr>"

text \<open>The same plan with a stack height of 0.\<close>

definition flatPlan :: cryoSIM where
  "flatPlan = scenarioPlan\<lparr>zHeight := 0\<rparr>"

text \<open>The same plan with a stack of two slices, at altitudes 0 and 10.\<close>

definition movingPlan :: cryoSIM where
  "movingPlan = scenarioPlan\<lparr>zHeight := 10, sliceHeight := 10\<rparr>"

text \<open>
  A stack of height 10 from altitude 0, with a given slice height, no camera, no light
  and an empty sequence: only the stage moves.
\<close>

definition stackPlan :: "rat \<Rightarrow> cryoSIM" where
  "stackPlan h =
     \<lparr>cameras = [], lights = [], exposureSettings = [],
      zPositioner = Positioner 2, zStart = 0, zHeight = 10, sliceHeight = h,
      numReps = 1, numAngles = 0, numPhases = 0, sequence = mkSequence 0 0,
      slmHandler = None, rotorHandler = None,
      cameraToIsReady = Map.empty, cameraToImageCount = Map.empty\<rparr>"

text \<open>
  The floats \<^verbatim>\<open>1.1\<close> and \<^verbatim>\<open>0.1\<close>, and a stack of height \<^verbatim>\<open>1.1\<close> in slices of
  \<^verbatim>\<open>0.1\<close>: the exact quotient of the two doubles is above 11, the float quotient is 11.
\<close>

definition float1_1 :: rat where
  "float1_1 = 2476979795053773 / 2251799813685248"

definition float0_1 :: rat where
  "float0_1 = 3602879701896397 / 36028797018963968"

definition tenthsPlan :: cryoSIM where
  "tenthsPlan = (stackPlan float0_1)\<lparr>zHeight := float1_1\<rparr>"

text \<open>
  The readiness of a camera that stays busy for 100 after a trigger, longer than its
  exposure time and gap.
\<close>

definition slowReadout :: "actionTable \<Rightarrow> handler \<Rightarrow> rat" where
  "slowReadout table camera =
     (case getLastActionFor table camera of None \<Rightarrow> 0 | Some a \<Rightarrow> timestamp a + 100)"

text \<open>A table on which the camera was triggered at time 0.\<close>

definition busyTable :: actionTable where
  "busyTable = [\<lparr>timestamp = 0, target = Camera 0, payload = SetDigital True\<rparr>]"

section \<open>Auxiliary lemmas\<close>

subsection \<open>The error monad and the loops\<close>

lemma bindE_Inl [simp]: "bindE (Inl e) f = Inl e"
  by (simp add: bindE_def)

lemma bindE_Inr [simp]: "bindE (Inr x) f = f x"
  by (simp add: bindE_def)

lemma bindE_eq_Inr: "bindE m f = Inr y \<longleftrightarrow> (\<exists>x. m = Inr x \<and> f x = Inr y)"
  by (cases m) simp_all

lemma bindE_eq_Inl: "bindE m f = Inl e \<longleftrightarrow> m = Inl e \<or> (\<exists>x. m = Inr x \<and> f x = Inl e)"
  by (cases m) simp_all

lemma forEachM_invariant:
  assumes "forEachM f xs s = Inr s'" and "I s"
    and "\<And>x t t'. x \<in> set xs \<Longrightarrow> I t \<Longrightarrow> f x t = Inr t' \<Longrightarrow> I t'"
  shows "I s'"
  using assms
proof (induction xs arbitrary: s)
  case Nil
  then show ?case by simp
next
  case (Cons x xs)
  from Cons.prems(1) obtain t where t: "f x s = Inr t" and rest: "forEachM f xs t = Inr s'"
    by (auto split: sum.splits)
  have "I t" using Cons.prems(3) [of x s t] Cons.prems(2) t by simp
  moreover have "\<And>y u u'. y \<in> set xs \<Longrightarrow> I u \<Longrightarrow> f y u = Inr u' \<Longrightarrow> I u'"
    by (meson Cons.prems(3) list.set_intros(2))
  ultimately show ?case using Cons.IH [OF rest] by blast
qed

lemma forEachM_no_error:
  assumes "I s"
    and "\<And>x t. x \<in> set xs \<Longrightarrow> I t \<Longrightarrow> f x t \<noteq> Inl e"
    and "\<And>x t t'. x \<in> set xs \<Longrightarrow> I t \<Longrightarrow> f x t = Inr t' \<Longrightarrow> I t'"
  shows "forEachM f xs s \<noteq> Inl e"
  using assms
proof (induction xs arbitrary: s)
  case Nil
  then show ?case by simp
next
  case (Cons x xs)
  show ?case
  proof (cases "f x s")
    case (Inl e')
    then show ?thesis using Cons.prems(2) [of x s] Cons.prems(1) by auto
  next
    case (Inr t)
    have "I t" using Cons.prems(3) [of x s t] Cons.prems(1) Inr by simp
    moreover have "\<And>y u. y \<in> set xs \<Longrightarrow> I u \<Longrightarrow> f y u \<noteq> Inl e"
      by (meson Cons.prems(2) list.set_intros(2))
    moreover have "\<And>y u u'. y \<in> set xs \<Longrightarrow> I u \<Longrightarrow> f y u = Inr u' \<Longrightarrow> I u'"
      by (meson Cons.prems(3) list.set_intros(2))
    ultimately have "forEachM f xs t \<noteq> Inl e"
      using Cons.IH [of t] by blast
    then show ?thesis using Inr by simp
  qed
qed

subsection \<open>Python floats\<close>

lemma bitLength_bounds:
  "0 < n \<Longrightarrow> 2 ^ (bitLength n - 1) \<le> n \<and> n < 2 ^ bitLength n"
proof (induction n rule: bitLength.induct)
  case (1 n)
  have b: "bitLength n = Suc (bitLength (n div 2))"
    using "1.prems" by (subst bitLength.simps) simp
  show ?case
  proof (cases "n div 2 = 0")
    case True
    then have "n = 1" using "1.prems" by linarith
    moreover have "bitLength (0::int) = 0" by (subst bitLength.simps) simp
    ultimately show ?thesis using b by simp
  next
    case False
    then have pos: "0 < n div 2" using "1.prems" by linarith
    from "1.IH" [OF _ pos] "1.prems"
    have ih: "2 ^ (bitLength (n div 2) - 1) \<le> n div 2" "n div 2 < 2 ^ bitLength (n div 2)"
      by simp_all
    have "0 < bitLength (n div 2)"
      using pos by (subst bitLength.simps) simp
    then obtain k where k: "bitLength (n div 2) = Suc k" by (cases "bitLength (n div 2)") auto
    have lo: "2 ^ Suc k \<le> n"
    proof -
      have "(2::int) ^ Suc k = 2 * 2 ^ k" by simp
      also have "\<dots> \<le> 2 * (n div 2)" using ih(1) k by simp
      also have "\<dots> \<le> n" by linarith
      finally show ?thesis .
    qed
    have hi: "n < 2 ^ Suc (Suc k)"
    proof -
      have "n div 2 + 1 \<le> 2 ^ Suc k" using ih(2) k by simp
      then have "2 * (n div 2) + 2 \<le> 2 * 2 ^ Suc k" by linarith
      moreover have "n < 2 * (n div 2) + 2" by linarith
      ultimately show ?thesis by simp
    qed
    show ?thesis using lo hi by (simp add: b k)
  qed
qed

lemma twoPow_pos: "0 < twoPow e"
  by (simp add: twoPow_def)

text \<open>\<open>floorLog2 x\<close> is the exponent of the binade of \<open>x\<close>.\<close>

lemma floorLog2_bounds:
  assumes "0 < x"
  shows "twoPow (floorLog2 x) \<le> x \<and> x < twoPow (floorLog2 x + 1)"
proof (cases "1 \<le> x")
  case True
  then have n: "0 < \<lfloor>x\<rfloor>" by simp
  from bitLength_bounds [OF n] obtain k where k: "bitLength \<lfloor>x\<rfloor> = Suc k"
    and lo: "2 ^ k \<le> \<lfloor>x\<rfloor>" and hi: "\<lfloor>x\<rfloor> < 2 ^ Suc k"
    by (cases "bitLength \<lfloor>x\<rfloor>") auto
  have e: "floorLog2 x = int k" using True k by (simp add: floorLog2_def)
  have "(2::rat) ^ k \<le> x"
  proof -
    have "(2::rat) ^ k = of_int (2 ^ k)" by simp
    also have "\<dots> \<le> of_int \<lfloor>x\<rfloor>" using lo by (simp only: of_int_le_iff)
    also have "\<dots> \<le> x" by simp
    finally show ?thesis .
  qed
  moreover have "x < 2 ^ Suc k"
  proof -
    have "\<lfloor>x\<rfloor> + 1 \<le> 2 ^ Suc k" using hi by simp
    then have "of_int (\<lfloor>x\<rfloor> + 1) \<le> (of_int (2 ^ Suc k) :: rat)" by (simp only: of_int_le_iff)
    moreover have "x < of_int (\<lfloor>x\<rfloor> + 1)" by linarith
    ultimately show ?thesis by simp
  qed
  ultimately show ?thesis by (simp add: e twoPow_def nat_add_distrib)
next
  case False
  define y where "y = 1 / x"
  have y: "1 < y" using False assms by (simp add: y_def)
  then have n: "0 < \<lceil>y\<rceil> - 1" by linarith
  from bitLength_bounds [OF n] obtain k where k: "bitLength (\<lceil>y\<rceil> - 1) = Suc k"
    and lo: "2 ^ k \<le> \<lceil>y\<rceil> - 1" and hi: "\<lceil>y\<rceil> - 1 < 2 ^ Suc k"
    by (cases "bitLength (\<lceil>y\<rceil> - 1)") auto
  have e: "floorLog2 x = - int (Suc k)" using False k by (simp add: floorLog2_def y_def)
  have up: "y \<le> 2 ^ Suc k"
  proof -
    have "\<lceil>y\<rceil> \<le> 2 ^ Suc k" using hi by simp
    then have "of_int \<lceil>y\<rceil> \<le> (of_int (2 ^ Suc k) :: rat)" by (simp only: of_int_le_iff)
    moreover have "y \<le> of_int \<lceil>y\<rceil>" by simp
    moreover have "(of_int (2 ^ Suc k) :: rat) = 2 ^ Suc k" by simp
    ultimately show ?thesis by (simp only: order_trans)
  qed
  have low: "2 ^ k < y"
  proof -
    have "(2::rat) ^ k = of_int (2 ^ k)" by simp
    also have "\<dots> \<le> of_int (\<lceil>y\<rceil> - 1)" using lo by (simp only: of_int_le_iff)
    also have "\<dots> < y" by linarith
    finally show ?thesis .
  qed
  have x: "x = 1 / y" using assms by (simp add: y_def)
  have ypos: "0 < y" using y by simp
  have "1 / 2 ^ Suc k \<le> x"
    unfolding x using up ypos by (simp add: field_simps)
  moreover have "x < 1 / 2 ^ k"
    unfolding x using low ypos by (simp add: field_simps)
  moreover have "twoPow (- int (Suc k) + 1) = 1 / 2 ^ k"
    by (cases k) (simp_all add: twoPow_def nat_add_distrib)
  moreover have "twoPow (- int (Suc k)) = 1 / 2 ^ Suc k"
    unfolding twoPow_def by (simp only: nat_int minus_minus) simp
  ultimately show ?thesis unfolding e by (simp only:)
qed

lemma roundHalfEven_close: "\<bar>of_int (roundHalfEven r) - r\<bar> \<le> 1 / 2"
proof -
  define d where "d = r - of_int \<lfloor>r\<rfloor>"
  have d: "0 \<le> d" "d < 1" unfolding d_def by linarith+
  have r: "r = of_int \<lfloor>r\<rfloor> + d" unfolding d_def by simp
  consider "d < 1 / 2" | "1 / 2 < d" | "d = 1 / 2" by linarith
  then show ?thesis
  proof cases
    case 1
    then have "roundHalfEven r = \<lfloor>r\<rfloor>"
      unfolding roundHalfEven_def Let_def d_def by simp
    then show ?thesis using d 1 r by simp
  next
    case 2
    then have "roundHalfEven r = \<lfloor>r\<rfloor> + 1"
      unfolding roundHalfEven_def Let_def d_def by simp
    then show ?thesis using d 2 r by simp
  next
    case 3
    then have "roundHalfEven r = \<lfloor>r\<rfloor> \<or> roundHalfEven r = \<lfloor>r\<rfloor> + 1"
      unfolding roundHalfEven_def Let_def d_def by simp
    then show ?thesis using 3 r by auto
  qed
qed

lemma roundHalfEven_nonneg: "0 \<le> r \<Longrightarrow> 0 \<le> roundHalfEven r"
  by (auto simp: roundHalfEven_def Let_def)

lemma roundToDouble_zero [simp]: "roundToDouble 0 = Some 0"
  by (simp add: roundToDouble_def)

lemma roundToDouble_nonneg:
  assumes "0 \<le> x" and "roundToDouble x = Some q"
  shows "0 \<le> q"
proof (cases "x = 0")
  case True
  then show ?thesis using assms(2) by simp
next
  case False
  define quantum where "quantum = twoPow (max (floorLog2 \<bar>x\<bar>) (- 1022) - 52)"
  have "0 < quantum" unfolding quantum_def by (rule twoPow_pos)
  then have "0 \<le> \<bar>x\<bar> / quantum" by simp
  then have m: "0 \<le> roundHalfEven (\<bar>x\<bar> / quantum)" by (rule roundHalfEven_nonneg)
  have "q = sgn x * of_int (roundHalfEven (\<bar>x\<bar> / quantum)) * quantum"
    using assms(2) False unfolding roundToDouble_def Let_def quantum_def
    by (simp split: if_splits)
  then show ?thesis using m \<open>0 < quantum\<close> assms(1) False by (simp add: sgn_if)
qed

text \<open>The rounded value is within half a unit in the last place of the exact one.\<close>

lemma roundToDouble_close:
  assumes "roundToDouble x = Some q" and "x \<noteq> 0"
  shows "\<bar>q - x\<bar> \<le> twoPow (max (floorLog2 \<bar>x\<bar>) (- 1022) - 52) / 2"
proof -
  define quantum where "quantum = twoPow (max (floorLog2 \<bar>x\<bar>) (- 1022) - 52)"
  define m where "m = roundHalfEven (\<bar>x\<bar> / quantum)"
  have qp: "0 < quantum" unfolding quantum_def by (rule twoPow_pos)
  have q: "q = sgn x * of_int m * quantum"
    using assms unfolding roundToDouble_def Let_def quantum_def m_def
    by (simp split: if_splits)
  have "\<bar>of_int m - \<bar>x\<bar> / quantum\<bar> \<le> 1 / 2" unfolding m_def by (rule roundHalfEven_close)
  then have "\<bar>of_int m - \<bar>x\<bar> / quantum\<bar> * quantum \<le> 1 / 2 * quantum"
    using qp by (intro mult_right_mono) simp_all
  moreover have "\<bar>of_int m - \<bar>x\<bar> / quantum\<bar> * quantum = \<bar>of_int m * quantum - \<bar>x\<bar>\<bar>"
  proof -
    have "\<bar>of_int m - \<bar>x\<bar> / quantum\<bar> * quantum = \<bar>(of_int m - \<bar>x\<bar> / quantum) * quantum\<bar>"
      using qp by (simp add: abs_mult)
    also have "(of_int m - \<bar>x\<bar> / quantum) * quantum = of_int m * quantum - \<bar>x\<bar>"
      using qp by (simp add: field_simps)
    finally show ?thesis .
  qed
  moreover have "\<bar>q - x\<bar> = \<bar>of_int m * quantum - \<bar>x\<bar>\<bar>"
  proof (cases "0 < x")
    case True
    then show ?thesis unfolding q by simp
  next
    case False
    then have neg: "x < 0" using assms(2) by simp
    then have "q - x = - (of_int m * quantum - \<bar>x\<bar>)" unfolding q by simp
    then show ?thesis by (simp only: abs_minus)
  qed
  ultimately show ?thesis unfolding quantum_def [symmetric] by simp
qed

subsection \<open>The action table\<close>

lemma getLastActionFor_Some:
  "getLastActionFor table h = Some a \<Longrightarrow> a \<in> set table \<and> target a = h"
proof -
  assume "getLastActionFor table h = Some a"
  then have ne: "filter (\<lambda>a. target a = h) table \<noteq> []"
    and a: "a = last (filter (\<lambda>a. target a = h) table)"
    by (auto simp: getLastActionFor_def Let_def split: if_splits)
  from ne have "last (filter (\<lambda>a. target a = h) table) \<in> set (filter (\<lambda>a. target a = h) table)"
    by (rule last_in_set)
  then show ?thesis using a by simp
qed

lemma addAction_Inr:
  "addAction t h p table = Inr table' \<Longrightarrow>
     table' = table @ [\<lparr>timestamp = t, target = h, payload = p\<rparr>]"
  by (auto simp: addAction_def split: option.splits if_splits)

lemma addAction_in_order:
  assumes "\<forall>a \<in> set table. target a = h \<longrightarrow> timestamp a \<le> t"
  shows "addAction t h p table = Inr (table @ [\<lparr>timestamp = t, target = h, payload = p\<rparr>])"
proof (cases "getLastActionFor table h")
  case None
  then show ?thesis by (simp add: addAction_def)
next
  case (Some a)
  then have "timestamp a \<le> t" using getLastActionFor_Some [OF Some] assms by blast
  then show ?thesis using Some by (simp add: addAction_def)
qed

lemma addAction_upTo: "upTo table t \<Longrightarrow>
  addAction t h p table = Inr (table @ [\<lparr>timestamp = t, target = h, payload = p\<rparr>])"
  by (rule addAction_in_order) (simp add: upTo_def)

subsection \<open>Steps that only append\<close>

lemma extendsTo_refl [simp]: "extendsTo cur table cur table"
  by (simp add: extendsTo_def)

lemma extendsTo_trans:
  assumes "extendsTo c0 t0 c1 t1" and "extendsTo c1 t1 c2 t2"
  shows "extendsTo c0 t0 c2 t2"
proof -
  from assms(1) obtain r1 where le1: "c0 \<le> c1" and t1: "t1 = t0 @ r1"
    and s1: "sorted (map timestamp r1)"
    and b1: "\<forall>a \<in> set r1. c0 \<le> timestamp a \<and> timestamp a \<le> c1"
    by (auto simp: extendsTo_def)
  from assms(2) obtain r2 where le2: "c1 \<le> c2" and t2: "t2 = t1 @ r2"
    and s2: "sorted (map timestamp r2)"
    and b2: "\<forall>a \<in> set r2. c1 \<le> timestamp a \<and> timestamp a \<le> c2"
    by (auto simp: extendsTo_def)
  have "sorted (map timestamp (r1 @ r2))"
    using s1 s2 b1 b2 by (fastforce simp: sorted_append)
  moreover have "\<forall>a \<in> set (r1 @ r2). c0 \<le> timestamp a \<and> timestamp a \<le> c2"
    using b1 b2 le1 le2 by fastforce
  moreover have "t2 = t0 @ (r1 @ r2)" using t1 t2 by simp
  ultimately show ?thesis using le1 le2 unfolding extendsTo_def by (metis order_trans)
qed

lemma extendsTo_later: "extendsTo c0 t0 c1 t1 \<Longrightarrow> c1 \<le> c2 \<Longrightarrow> extendsTo c0 t0 c2 t1"
  using extendsTo_trans [of c0 t0 c1 t1 c2 t1] by (simp add: extendsTo_def)

lemma extendsTo_snoc:
  "cur \<le> t \<Longrightarrow> extendsTo cur table t (table @ [\<lparr>timestamp = t, target = h, payload = p\<rparr>])"
  by (simp add: extendsTo_def)

lemma extendsTo_map:
  "extendsTo cur table cur (table @ map (\<lambda>h. \<lparr>timestamp = cur, target = h, payload = p\<rparr>) hs)"
proof -
  have "sorted (map timestamp (map (\<lambda>h. \<lparr>timestamp = cur, target = h, payload = p\<rparr>) hs))"
    by (induction hs) auto
  then show ?thesis by (auto simp: extendsTo_def)
qed

lemma extendsTo_upTo: "extendsTo cur table cur' table' \<Longrightarrow> upTo table cur \<Longrightarrow> upTo table' cur'"
  by (fastforce simp: extendsTo_def upTo_def)

subsection \<open>Loops of appends at one time\<close>

lemma addAction_loop_Inr:
  "forEachM (\<lambda>h. addAction c h p) hs table = Inr table' \<Longrightarrow>
     table' = table @ map (\<lambda>h. \<lparr>timestamp = c, target = h, payload = p\<rparr>) hs"
proof (induction hs arbitrary: table)
  case Nil
  then show ?case by simp
next
  case (Cons h hs)
  from Cons.prems obtain t1 where a: "addAction c h p table = Inr t1"
    and rest: "forEachM (\<lambda>h. addAction c h p) hs t1 = Inr table'"
    by (auto split: sum.splits)
  have "t1 = table @ [\<lparr>timestamp = c, target = h, payload = p\<rparr>]"
    using a by (rule addAction_Inr)
  then show ?case using Cons.IH [OF rest] by simp
qed

lemma addAction_loop_in_order:
  assumes "\<forall>a \<in> set table. target a \<in> set hs \<longrightarrow> timestamp a \<le> c"
  shows "forEachM (\<lambda>h. addAction c h p) hs table =
           Inr (table @ map (\<lambda>h. \<lparr>timestamp = c, target = h, payload = p\<rparr>) hs)"
  using assms
proof (induction hs arbitrary: table)
  case Nil
  then show ?case by simp
next
  case (Cons h hs)
  have "addAction c h p table = Inr (table @ [\<lparr>timestamp = c, target = h, payload = p\<rparr>])"
    using Cons.prems by (intro addAction_in_order) simp
  moreover have "\<forall>a \<in> set (table @ [\<lparr>timestamp = c, target = h, payload = p\<rparr>]).
       target a \<in> set hs \<longrightarrow> timestamp a \<le> c"
    using Cons.prems by auto
  ultimately show ?case using Cons.IH by simp
qed

subsection \<open>expose\<close>

lemma Max_insert_max:
  "finite S \<Longrightarrow> Max (insert (max a x) S) = Max (insert (a::rat) (insert x S))"
  by (cases "S = {}") (simp_all add: max.assoc)

lemma exposeScan_Max:
  "exposeScan w orc table cams (a, r) =
     (Max (insert a ((\<lambda>c. getExposureTime orc c + getTimeBetweenExposures orc c) ` set cams)),
      Max (insert r (w table ` set cams)))"
proof (induction cams arbitrary: a r)
  case Nil
  then show ?case by simp
next
  case (Cons cam cams)
  have m: "\<And>x y::rat. (if x < y then y else x) = max x y" by (simp add: max_def)
  show ?case
    by (simp add: Let_def m Cons.IH Max_insert_max insert_commute del: Max_insert)
qed

lemma triggerCamera_Inr:
  assumes "triggerCamera c cam (table, counts) = Inr (table', counts')"
  shows "table' = table @ [\<lparr>timestamp = c, target = cam, payload = SetDigital True\<rparr>]
       \<and> cam \<in> dom counts \<and> dom counts' = dom counts"
proof -
  from assms obtain n where add: "addAction c cam (SetDigital True) table = Inr table'"
    and n: "counts cam = Some n" and c': "counts' = counts(cam \<mapsto> n + 1)"
    by (auto simp: triggerCamera_def bindE_eq_Inr split: option.splits)
  have "cam \<in> dom counts" using n by (simp add: domI)
  moreover from this have "dom counts' = dom counts" using c' by (simp add: insert_absorb)
  ultimately show ?thesis using addAction_Inr [OF add] by simp
qed

lemma triggerCamera_loop_Inr:
  "forEachM (triggerCamera c) cams (table, counts) = Inr (table', counts') \<Longrightarrow>
     table' = table @ map (\<lambda>h. \<lparr>timestamp = c, target = h, payload = SetDigital True\<rparr>) cams
     \<and> set cams \<subseteq> dom counts \<and> dom counts' = dom counts"
proof (induction cams arbitrary: table counts)
  case Nil
  then show ?case by simp
next
  case (Cons cam cams)
  from Cons.prems obtain t1 c1 where a: "triggerCamera c cam (table, counts) = Inr (t1, c1)"
    and rest: "forEachM (triggerCamera c) cams (t1, c1) = Inr (table', counts')"
    by (auto split: sum.splits)
  show ?case using triggerCamera_Inr [OF a] Cons.IH [OF rest] by simp
qed

lemma triggerCamera_in_order:
  assumes "\<forall>a \<in> set table. target a = cam \<longrightarrow> timestamp a \<le> c" and "counts cam = Some n"
  shows "triggerCamera c cam (table, counts) =
           Inr (table @ [\<lparr>timestamp = c, target = cam, payload = SetDigital True\<rparr>],
                counts(cam \<mapsto> n + 1))"
  using assms by (simp add: triggerCamera_def addAction_in_order)

lemma triggerCamera_loop_in_order:
  assumes "\<forall>a \<in> set table. target a \<in> set cams \<longrightarrow> timestamp a \<le> c"
    and "set cams \<subseteq> dom counts"
  shows "\<exists>counts'. forEachM (triggerCamera c) cams (table, counts) =
           Inr (table @ map (\<lambda>h. \<lparr>timestamp = c, target = h, payload = SetDigital True\<rparr>) cams,
                counts')"
  using assms
proof (induction cams arbitrary: table counts)
  case Nil
  then show ?case by simp
next
  case (Cons cam cams)
  from Cons.prems(2) obtain n where n: "counts cam = Some n" by auto
  have step: "triggerCamera c cam (table, counts) =
           Inr (table @ [\<lparr>timestamp = c, target = cam, payload = SetDigital True\<rparr>],
                counts(cam \<mapsto> n + 1))"
    using Cons.prems(1) n by (intro triggerCamera_in_order) simp_all
  have "\<forall>a \<in> set (table @ [\<lparr>timestamp = c, target = cam, payload = SetDigital True\<rparr>]).
          target a \<in> set cams \<longrightarrow> timestamp a \<le> c"
    using Cons.prems(1) by auto
  moreover have "set cams \<subseteq> dom (counts(cam \<mapsto> n + 1))"
    using Cons.prems(2) by auto
  ultimately obtain counts' where
    "forEachM (triggerCamera c) cams
       (table @ [\<lparr>timestamp = c, target = cam, payload = SetDigital True\<rparr>], counts(cam \<mapsto> n + 1)) =
     Inr ((table @ [\<lparr>timestamp = c, target = cam, payload = SetDigital True\<rparr>]) @
            map (\<lambda>h. \<lparr>timestamp = c, target = h, payload = SetDigital True\<rparr>) cams, counts')"
    using Cons.IH by blast
  then show ?case using step by simp
qed

lemma triggerCamera_loop_not_OutOfOrder:
  assumes "\<forall>a \<in> set table. target a \<in> set cams \<longrightarrow> timestamp a \<le> c"
  shows "forEachM (triggerCamera c) cams (table, counts) \<noteq> Inl OutOfOrder"
  using assms
proof (induction cams arbitrary: table counts)
  case Nil
  then show ?case by simp
next
  case (Cons cam cams)
  have add: "addAction c cam (SetDigital True) table =
      Inr (table @ [\<lparr>timestamp = c, target = cam, payload = SetDigital True\<rparr>])"
    using Cons.prems by (intro addAction_in_order) simp
  show ?case
  proof (cases "counts cam")
    case None
    then show ?thesis using add by (simp add: triggerCamera_def)
  next
    case (Some n)
    have "\<forall>a \<in> set (table @ [\<lparr>timestamp = c, target = cam, payload = SetDigital True\<rparr>]).
          target a \<in> set cams \<longrightarrow> timestamp a \<le> c"
      using Cons.prems by auto
    from Cons.IH [OF this] show ?thesis using add Some by (simp add: triggerCamera_def)
  qed
qed

text \<open>What a call of expose that returns has done.\<close>

lemma expose_Inr:
  assumes "expose w orc self c cams table = Inr (c', table', self')"
  shows "c' = max (Max (insert 0 (w table ` set cams)))
                  (c + Max (insert 0 ((\<lambda>cam. getExposureTime orc cam + getTimeBetweenExposures orc cam) ` set cams)))"
    and "table' = table @ map (\<lambda>h. \<lparr>timestamp = c, target = h, payload = SetDigital True\<rparr>) (lights self)
                        @ map (\<lambda>h. \<lparr>timestamp = c, target = h, payload = SetDigital True\<rparr>) cams"
    and "\<exists>counts. self' = self\<lparr>cameraToImageCount := counts\<rparr>
            \<and> dom counts = dom (cameraToImageCount self)"
    and "set cams \<subseteq> dom (cameraToImageCount self)"
proof -
  from assms obtain t1 t2 counts where
    l: "forEachM (\<lambda>light. addAction c light (SetDigital True)) (lights self) table = Inr t1"
    and k: "forEachM (triggerCamera c) cams (t1, cameraToImageCount self) = Inr (t2, counts)"
    and r: "c' = max (snd (exposeScan w orc table cams (0, 0))) (c + fst (exposeScan w orc table cams (0, 0)))"
           "table' = t2" "self' = self\<lparr>cameraToImageCount := counts\<rparr>"
    by (auto simp: expose_def bindE_eq_Inr split: prod.splits)
  note l' = addAction_loop_Inr [OF l]
  note k' = triggerCamera_loop_Inr [OF k]
  show "c' = max (Max (insert 0 (w table ` set cams)))
                  (c + Max (insert 0 ((\<lambda>cam. getExposureTime orc cam + getTimeBetweenExposures orc cam) ` set cams)))"
    using r(1) by (simp add: exposeScan_Max del: Max_insert)
  show "table' = table @ map (\<lambda>h. \<lparr>timestamp = c, target = h, payload = SetDigital True\<rparr>) (lights self)
                        @ map (\<lambda>h. \<lparr>timestamp = c, target = h, payload = SetDigital True\<rparr>) cams"
    using l' k' r(2) by simp
  show "\<exists>counts. self' = self\<lparr>cameraToImageCount := counts\<rparr>
            \<and> dom counts = dom (cameraToImageCount self)"
    using k' r(3) by blast
  show "set cams \<subseteq> dom (cameraToImageCount self)" using k' by simp
qed

lemma expose_in_order:
  assumes "\<forall>a \<in> set table. target a \<in> set (lights self) \<union> set cams \<longrightarrow> timestamp a \<le> c"
    and "set cams \<subseteq> dom (cameraToImageCount self)"
  shows "\<exists>r. expose w orc self c cams table = Inr r"
proof -
  let ?t1 = "table @ map (\<lambda>h. \<lparr>timestamp = c, target = h, payload = SetDigital True\<rparr>) (lights self)"
  have l: "forEachM (\<lambda>light. addAction c light (SetDigital True)) (lights self) table = Inr ?t1"
    using assms(1) by (intro addAction_loop_in_order) simp
  have "\<forall>a \<in> set ?t1. target a \<in> set cams \<longrightarrow> timestamp a \<le> c"
    using assms(1) by auto
  from triggerCamera_loop_in_order [OF this assms(2)]
  obtain counts' where "forEachM (triggerCamera c) cams (?t1, cameraToImageCount self) =
      Inr (?t1 @ map (\<lambda>h. \<lparr>timestamp = c, target = h, payload = SetDigital True\<rparr>) cams, counts')"
    by blast
  then show ?thesis using l by (simp add: expose_def split: prod.splits)
qed

lemma expose_not_OutOfOrder:
  assumes "upTo table c"
  shows "expose w orc self c cams table \<noteq> Inl OutOfOrder"
proof -
  let ?t1 = "table @ map (\<lambda>h. \<lparr>timestamp = c, target = h, payload = SetDigital True\<rparr>) (lights self)"
  have l: "forEachM (\<lambda>light. addAction c light (SetDigital True)) (lights self) table = Inr ?t1"
    using assms by (intro addAction_loop_in_order) (simp add: upTo_def)
  have "\<forall>a \<in> set ?t1. target a \<in> set cams \<longrightarrow> timestamp a \<le> c"
    using assms by (auto simp: upTo_def)
  from triggerCamera_loop_not_OutOfOrder [OF this]
  have "forEachM (triggerCamera c) cams (?t1, cameraToImageCount self) \<noteq> Inl OutOfOrder" .
  then show ?thesis using l by (auto simp: expose_def bindE_eq_Inl split: prod.splits)
qed

lemma expose_extendsTo:
  assumes "expose w orc self c cams table = Inr (c', table', self')"
  shows "extendsTo c table c' table'"
proof -
  note e = expose_Inr [OF assms]
  define D where "D = Max (insert 0 ((\<lambda>cam. getExposureTime orc cam + getTimeBetweenExposures orc cam) ` set cams))"
  define L where "L = Max (insert 0 (w table ` set cams))"
  have "0 \<le> D" unfolding D_def by (rule Max_ge) simp_all
  moreover have "c' = max L (c + D)" using e(1) by (simp only: D_def L_def)
  ultimately have le: "c \<le> c'" by linarith
  have "extendsTo c table c (table @ map (\<lambda>h. \<lparr>timestamp = c, target = h, payload = SetDigital True\<rparr>)
           (lights self @ cams))"
    by (rule extendsTo_map)
  then have "extendsTo c table c table'" using e(2) by simp
  then show ?thesis using le by (rule extendsTo_later)
qed

lemma sameButCounts_refl [simp]: "sameButCounts self self"
  unfolding sameButCounts_def by (rule exI [of _ "cameraToImageCount self"]) simp

lemma sameButCounts_trans:
  "sameButCounts a b \<Longrightarrow> sameButCounts b c \<Longrightarrow> sameButCounts a c"
  unfolding sameButCounts_def by auto

lemma sameButCounts_fields:
  assumes "sameButCounts self self'"
  shows "cameras self' = cameras self" "lights self' = lights self"
    "exposureSettings self' = exposureSettings self" "zPositioner self' = zPositioner self"
    "zStart self' = zStart self" "zHeight self' = zHeight self"
    "sliceHeight self' = sliceHeight self" "numReps self' = numReps self"
    "sequence self' = sequence self" "slmHandler self' = slmHandler self"
    "rotorHandler self' = rotorHandler self" "cameraToIsReady self' = cameraToIsReady self"
    "dom (cameraToImageCount self') = dom (cameraToImageCount self)"
proof -
  from assms obtain counts where s: "self' = self\<lparr>cameraToImageCount := counts\<rparr>"
    and d: "dom counts = dom (cameraToImageCount self)"
    unfolding sameButCounts_def by blast
  show "cameras self' = cameras self" "lights self' = lights self"
    "exposureSettings self' = exposureSettings self" "zPositioner self' = zPositioner self"
    "zStart self' = zStart self" "zHeight self' = zHeight self"
    "sliceHeight self' = sliceHeight self" "numReps self' = numReps self"
    "sequence self' = sequence self" "slmHandler self' = slmHandler self"
    "rotorHandler self' = rotorHandler self" "cameraToIsReady self' = cameraToIsReady self"
    by (simp_all add: s)
  show "dom (cameraToImageCount self') = dom (cameraToImageCount self)"
    using d by (simp add: s)
qed

lemma expose_sameButCounts:
  "expose w orc self c cams table = Inr (c', table', self') \<Longrightarrow> sameButCounts self self'"
  unfolding sameButCounts_def by (rule expose_Inr(3))

subsection \<open>One step of the sequence\<close>

lemma triggerClients_Inr:
  "triggerClients h c i table = Inr table' \<Longrightarrow> extendsTo c table c table'"
  by (auto simp: triggerClients_def extendsTo_map split: option.splits if_splits
           dest!: addAction_loop_Inr)

lemma triggerClients_upTo:
  "upTo table c \<Longrightarrow> \<exists>table'. triggerClients h c i table = Inr table'"
  by (auto simp: triggerClients_def upTo_def addAction_loop_in_order split: option.splits)

lemma sequenceStep_Inr:
  assumes "sequenceStep orc i (c, table, self) = Inr (c', table', self')"
  shows "extendsTo c table c' table'" and "sameButCounts self self'"
proof -
  from assms obtain t1 t2 c3 where
    a: "triggerClients (slmHandler self) c i table = Inr t1"
    and b: "triggerClients (rotorHandler self) c i t1 = Inr t2"
    and e: "expose (getTimeWhenCameraCanExpose orc) orc self c (cameras self) t2 = Inr (c3, table', self')"
    and c': "c' = c3 + 5"
    by (auto simp: sequenceStep_def bindE_eq_Inr)
  have "extendsTo c table c t2"
    using extendsTo_trans [OF triggerClients_Inr [OF a] triggerClients_Inr [OF b]] .
  then have "extendsTo c table c3 table'"
    using expose_extendsTo [OF e] by (rule extendsTo_trans)
  then show "extendsTo c table c' table'" unfolding c' by (rule extendsTo_later) simp
  show "sameButCounts self self'" using e by (rule expose_sameButCounts)
qed

lemma sequenceStep_not_OutOfOrder:
  assumes "upTo table c"
  shows "sequenceStep orc i (c, table, self) \<noteq> Inl OutOfOrder"
proof -
  from triggerClients_upTo [OF assms] obtain t1 where
    a: "triggerClients (slmHandler self) c i table = Inr t1" by blast
  have u1: "upTo t1 c" using extendsTo_upTo [OF triggerClients_Inr [OF a] assms] .
  from triggerClients_upTo [OF u1] obtain t2 where
    b: "triggerClients (rotorHandler self) c i t1 = Inr t2" by blast
  have u2: "upTo t2 c" using extendsTo_upTo [OF triggerClients_Inr [OF b] u1] .
  show ?thesis
    using a b expose_not_OutOfOrder [OF u2, where self = self and cams = "cameras self"
        and w = "getTimeWhenCameraCanExpose orc" and orc = orc]
    by (auto simp: sequenceStep_def bindE_eq_Inl)
qed

text \<open>The loop over the sequence.\<close>

lemma sequenceLoop_Inr:
  assumes "forEachM (sequenceStep orc) is (c, table, self) = Inr (c', table', self')"
  shows "extendsTo c table c' table' \<and> sameButCounts self self'"
proof -
  let ?I = "\<lambda>(c1, t1, s1). extendsTo c table c1 t1 \<and> sameButCounts self s1"
  have "?I (c', table', self')"
  proof (rule forEachM_invariant [OF assms, where I = ?I])
    show "?I (c, table, self)" by simp
  next
    fix x t t' assume I: "?I t" and step: "sequenceStep orc x t = Inr t'"
    obtain c1 t1 s1 where t: "t = (c1, t1, s1)" by (cases t)
    obtain c2 t2 s2 where t': "t' = (c2, t2, s2)" by (cases t')
    note st = sequenceStep_Inr [OF step [unfolded t t']]
    have "extendsTo c table c2 t2" using I t st(1) by (auto intro: extendsTo_trans)
    moreover have "sameButCounts self s2" using I t st(2) by (auto intro: sameButCounts_trans)
    ultimately show "?I t'" using t' by simp
  qed
  then show ?thesis by simp
qed

lemma sequenceLoop_not_OutOfOrder:
  assumes "upTo table c"
  shows "forEachM (sequenceStep orc) is (c, table, self) \<noteq> Inl OutOfOrder"
proof -
  let ?I = "\<lambda>(c1, t1, s1 :: cryoSIM). upTo t1 c1"
  show ?thesis
  proof (rule forEachM_no_error [where I = ?I])
    show "?I (c, table, self)" using assms by simp
  next
    fix x t assume I: "?I t"
    obtain c1 t1 s1 where t: "t = (c1, t1, s1)" by (cases t)
    show "sequenceStep orc x t \<noteq> Inl OutOfOrder"
      using I unfolding t by (simp add: sequenceStep_not_OutOfOrder)
  next
    fix x t t' assume I: "?I t" and step: "sequenceStep orc x t = Inr t'"
    obtain c1 t1 s1 where t: "t = (c1, t1, s1)" by (cases t)
    obtain c2 t2 s2 where t': "t' = (c2, t2, s2)" by (cases t')
    have "upTo t2 c2"
      using extendsTo_upTo [OF sequenceStep_Inr(1) [OF step [unfolded t t']]] I t by simp
    then show "?I t'" using t' by simp
  qed
qed

subsection \<open>One Z slice\<close>

lemma handlerGetMovementTime_Inr:
  assumes "handlerGetMovementTime orc z a b = Inr (m, s)"
  shows "z \<noteq> NoneHandler" and "getMovementTime orc z a b = Some (m, s)"
  using assms by (auto simp: handlerGetMovementTime_def split: if_splits option.splits)

lemma handlerGetMovementTime_nonNegative:
  "handlerGetMovementTime orc z a b = Inr (m, s) \<Longrightarrow> nonNegative orc \<Longrightarrow> 0 \<le> m \<and> 0 \<le> s"
  using handlerGetMovementTime_Inr(2) [of orc z a b m s] unfolding nonNegative_def by blast

lemma handlerGetMovementTime_not_OutOfOrder:
  "handlerGetMovementTime orc z a b \<noteq> Inl OutOfOrder"
  by (simp add: handlerGetMovementTime_def split: option.splits)

lemma zMove_Inr:
  assumes "zMove orc self zTarget (c, table, prev) = Inr (c', table', prev')"
  shows "\<exists>m s. (case prev of None \<Rightarrow> m = 0 \<and> s = 0
                       | Some a \<Rightarrow> handlerGetMovementTime orc (zPositioner self) a zTarget = Inr (m, s))
           \<and> table' = table @ [\<lparr>timestamp = c + m, target = zPositioner self,
                                    payload = MoveAbsolute zTarget\<rparr>]
           \<and> c' = c + m + s \<and> prev' = Some zTarget"
proof -
  from assms obtain m s where
    q: "(case prev of None \<Rightarrow> Inr (0, 0)
         | Some a \<Rightarrow> handlerGetMovementTime orc (zPositioner self) a zTarget) = Inr (m, s)"
    and add: "addAction (c + m) (zPositioner self) (MoveAbsolute zTarget) table = Inr table'"
    and r: "c' = c + m + s" "prev' = Some zTarget"
    by (auto simp: zMove_def bindE_eq_Inr)
  have "case prev of None \<Rightarrow> m = 0 \<and> s = 0
          | Some a \<Rightarrow> handlerGetMovementTime orc (zPositioner self) a zTarget = Inr (m, s)"
    using q by (cases prev) auto
  then show ?thesis using addAction_Inr [OF add] r by blast
qed

lemma zMove_extendsTo:
  assumes "zMove orc self zTarget (c, table, prev) = Inr (c', table', prev')" and "nonNegative orc"
  shows "extendsTo c table c' table'"
proof -
  from zMove_Inr [OF assms(1)] obtain m s where
    q: "case prev of None \<Rightarrow> m = 0 \<and> s = 0
          | Some a \<Rightarrow> handlerGetMovementTime orc (zPositioner self) a zTarget = Inr (m, s)"
    and t: "table' = table @ [\<lparr>timestamp = c + m, target = zPositioner self,
                                    payload = MoveAbsolute zTarget\<rparr>]"
    and c': "c' = c + m + s"
    by blast
  have ms: "0 \<le> m \<and> 0 \<le> s"
    using q assms(2) by (cases prev) (auto dest: handlerGetMovementTime_nonNegative)
  have "extendsTo c table (c + m) table'" unfolding t using ms by (intro extendsTo_snoc) simp
  moreover have "c + m \<le> c + m + s" using ms by simp
  ultimately show ?thesis unfolding c' by (rule extendsTo_later)
qed

lemma zMove_not_OutOfOrder:
  assumes "upTo table c" and "nonNegative orc"
  shows "zMove orc self zTarget (c, table, prev) \<noteq> Inl OutOfOrder"
proof
  assume bad: "zMove orc self zTarget (c, table, prev) = Inl OutOfOrder"
  let ?q = "case prev of None \<Rightarrow> Inr (0, 0)
         | Some a \<Rightarrow> handlerGetMovementTime orc (zPositioner self) a zTarget"
  have "?q \<noteq> Inl OutOfOrder"
    by (cases prev) (simp_all add: handlerGetMovementTime_not_OutOfOrder)
  with bad obtain m s where q: "?q = Inr (m, s)"
    and add: "addAction (c + m) (zPositioner self) (MoveAbsolute zTarget) table = Inl OutOfOrder"
    by (auto simp: zMove_def bindE_eq_Inl bindE_eq_Inr)
  have "0 \<le> m" using q assms(2) by (cases prev) (auto dest: handlerGetMovementTime_nonNegative)
  then have "upTo table (c + m)" using assms(1) by (fastforce simp: upTo_def)
  from addAction_upTo [OF this] show False using add by simp
qed

lemma zSlice_Inr:
  assumes "zSlice orc i (c, table, self, prev) = Inr (c', table', self', prev')"
    and "nonNegative orc"
  shows "extendsTo c table c' table'" and "sameButCounts self self'"
proof -
  let ?z = "zStart self + sliceHeight self * of_nat i"
  from assms(1) obtain c1 t1 c2 t2 where
    mv: "zMove orc self ?z (c, table, prev) = Inr (c1, t1, prev')"
    and sq: "forEachM (sequenceStep orc) [0..<length (sequence self)] (c1, t1, self) = Inr (c2, t2, self')"
    and add: "addAction c2 (zPositioner self') (MoveAbsolute ?z) t2 = Inr table'"
    and c': "c' = c2"
    by (auto simp: zSlice_def Let_def bindE_eq_Inr)
  note e1 = zMove_extendsTo [OF mv assms(2)]
  note e2 = sequenceLoop_Inr [OF sq]
  have e3: "extendsTo c2 t2 c2 table'"
    unfolding addAction_Inr [OF add] by (rule extendsTo_snoc) simp
  show "extendsTo c table c' table'"
    unfolding c' using e1 e2 e3 by (blast intro: extendsTo_trans)
  show "sameButCounts self self'" using e2 by simp
qed

lemma zSlice_not_OutOfOrder:
  assumes "upTo table c" and "nonNegative orc"
  shows "zSlice orc i (c, table, self, prev) \<noteq> Inl OutOfOrder"
proof
  let ?z = "zStart self + sliceHeight self * of_nat i"
  assume bad: "zSlice orc i (c, table, self, prev) = Inl OutOfOrder"
  have "zMove orc self ?z (c, table, prev) \<noteq> Inl OutOfOrder"
    using assms by (rule zMove_not_OutOfOrder)
  with bad obtain c1 t1 p1 where mv: "zMove orc self ?z (c, table, prev) = Inr (c1, t1, p1)"
    and bad1: "bindE (forEachM (sequenceStep orc) [0..<length (sequence self)] (c1, t1, self))
       (\<lambda>(curTime2, table2, self2).
          bindE (addAction curTime2 (zPositioner self2) (MoveAbsolute ?z) table2)
            (\<lambda>table3. Inr (curTime2, table3, self2, p1))) = Inl OutOfOrder"
    by (auto simp: zSlice_def Let_def bindE_eq_Inl)
  have u1: "upTo t1 c1" using extendsTo_upTo [OF zMove_extendsTo [OF mv assms(2)] assms(1)] .
  have "forEachM (sequenceStep orc) [0..<length (sequence self)] (c1, t1, self) \<noteq> Inl OutOfOrder"
    using u1 by (rule sequenceLoop_not_OutOfOrder)
  with bad1 obtain c2 t2 s2 where
    sq: "forEachM (sequenceStep orc) [0..<length (sequence self)] (c1, t1, self) = Inr (c2, t2, s2)"
    and add: "addAction c2 (zPositioner s2) (MoveAbsolute ?z) t2 = Inl OutOfOrder"
    by (auto simp: bindE_eq_Inl)
  have "upTo t2 c2" using sequenceLoop_Inr [OF sq] u1 by (blast intro: extendsTo_upTo)
  from addAction_upTo [OF this] show False using add by simp
qed

subsection \<open>The slice loop, the reset phase, the return phase\<close>

lemma zSliceLoop_Inr:
  assumes "forEachM (zSlice orc) is (c, table, self, prev) = Inr (c', table', self', prev')"
    and "nonNegative orc"
  shows "extendsTo c table c' table' \<and> sameButCounts self self'"
proof -
  let ?I = "\<lambda>(c1, t1, s1, p1 :: rat option). extendsTo c table c1 t1 \<and> sameButCounts self s1"
  have "?I (c', table', self', prev')"
  proof (rule forEachM_invariant [OF assms(1), where I = ?I])
    show "?I (c, table, self, prev)" by simp
  next
    fix x t t' assume I: "?I t" and step: "zSlice orc x t = Inr t'"
    obtain c1 t1 s1 p1 where t: "t = (c1, t1, s1, p1)" by (cases t)
    obtain c2 t2 s2 p2 where t': "t' = (c2, t2, s2, p2)" by (cases t')
    note st = zSlice_Inr [OF step [unfolded t t'] assms(2)]
    have "extendsTo c table c2 t2" using I t st(1) by (auto intro: extendsTo_trans)
    moreover have "sameButCounts self s2" using I t st(2) by (auto intro: sameButCounts_trans)
    ultimately show "?I t'" using t' by simp
  qed
  then show ?thesis by simp
qed

lemma zSliceLoop_not_OutOfOrder:
  assumes "upTo table c" and "nonNegative orc"
  shows "forEachM (zSlice orc) is (c, table, self, prev) \<noteq> Inl OutOfOrder"
proof -
  let ?I = "\<lambda>(c1, t1, s1 :: cryoSIM, p1 :: rat option). upTo t1 c1"
  show ?thesis
  proof (rule forEachM_no_error [where I = ?I])
    show "?I (c, table, self, prev)" using assms(1) by simp
  next
    fix x t assume I: "?I t"
    obtain c1 t1 s1 p1 where t: "t = (c1, t1, s1, p1)" by (cases t)
    show "zSlice orc x t \<noteq> Inl OutOfOrder"
      using I unfolding t by (simp add: zSlice_not_OutOfOrder assms(2))
  next
    fix x t t' assume I: "?I t" and step: "zSlice orc x t = Inr t'"
    obtain c1 t1 s1 p1 where t: "t = (c1, t1, s1, p1)" by (cases t)
    obtain c2 t2 s2 p2 where t': "t' = (c2, t2, s2, p2)" by (cases t')
    have "upTo t2 c2"
      using extendsTo_upTo [OF zSlice_Inr(1) [OF step [unfolded t t'] assms(2)]] I t by simp
    then show "?I t'" using t' by simp
  qed
qed

lemma fold_max_ge: "(t::rat) \<le> fold (\<lambda>x t. max t (f x)) xs t"
proof (induction xs arbitrary: t)
  case Nil
  then show ?case by simp
next
  case (Cons x xs)
  have "t \<le> max t (f x)" by simp
  also have "\<dots> \<le> fold (\<lambda>x t. max t (f x)) xs (max t (f x))" by (rule Cons.IH)
  finally show ?case by simp
qed

lemma resetCams_Inr:
  assumes "resetCams orc c cams table = Inr (c', table')"
  shows "extendsTo c table c' table'"
proof -
  from assms obtain t1 where
    l: "forEachM (\<lambda>camera. addAction c camera (SetDigital True)) cams table = Inr t1"
    and r: "c' = fold (\<lambda>camera t. max t (c + getResetTime orc camera)) cams c" "table' = t1"
    by (auto simp: resetCams_def bindE_eq_Inr)
  have "extendsTo c table c table'"
    unfolding r(2) addAction_loop_Inr [OF l] by (rule extendsTo_map)
  moreover have "c \<le> c'" unfolding r(1) by (rule fold_max_ge)
  ultimately show ?thesis by (rule extendsTo_later)
qed

lemma resetCams_not_OutOfOrder:
  assumes "upTo table c"
  shows "resetCams orc c cams table \<noteq> Inl OutOfOrder"
proof -
  have "forEachM (\<lambda>camera. addAction c camera (SetDigital True)) cams table =
      Inr (table @ map (\<lambda>h. \<lparr>timestamp = c, target = h, payload = SetDigital True\<rparr>) cams)"
    using assms by (intro addAction_loop_in_order) (simp add: upTo_def)
  then show ?thesis by (simp add: resetCams_def)
qed

lemma camsToResetOf_not_OutOfOrder: "camsToResetOf ready cams \<noteq> Inl OutOfOrder"
  by (induction cams) (auto simp: bindE_eq_Inl split: option.splits)

lemma resetPhase_Inr:
  assumes "resetPhase orc self = Inr (c, table)"
  shows "extendsTo 0 [] c table"
proof -
  from assms obtain cams where
    r: "(if cams \<noteq> [] then resetCams orc 0 cams [] else Inr (0, [])) = Inr (c, table)"
    by (auto simp: resetPhase_def bindE_eq_Inr)
  show ?thesis
  proof (cases "cams = []")
    case True
    then show ?thesis using r by simp
  next
    case False
    then show ?thesis using r by (simp add: resetCams_Inr)
  qed
qed

lemma resetPhase_not_OutOfOrder: "resetPhase orc self \<noteq> Inl OutOfOrder"
proof -
  have "resetCams orc 0 cams [] \<noteq> Inl OutOfOrder" for cams
    by (rule resetCams_not_OutOfOrder) (simp add: upTo_def)
  then show ?thesis
    using camsToResetOf_not_OutOfOrder [of "cameraToIsReady self" "cameras self"]
    by (auto simp: resetPhase_def bindE_eq_Inl)
qed

lemma extendsTo_from_empty:
  assumes "extendsTo 0 [] c table"
  shows "upTo table c" and "sorted (map timestamp table)"
  using assms by (auto simp: extendsTo_def upTo_def)

lemma sliceLoop_Inr:
  assumes "sliceLoop orc self = Inr (c, table, self', prev)" and "nonNegative orc"
  shows "extendsTo 0 [] c table" and "sameButCounts self self'"
proof -
  from assms(1) obtain c0 t0 n where r: "resetPhase orc self = Inr (c0, t0)"
    and l: "forEachM (zSlice orc) (rangeN n) (c0, t0, self, None) = Inr (c, table, self', prev)"
    by (auto simp: sliceLoop_def bindE_eq_Inr)
  note z = zSliceLoop_Inr [OF l assms(2)]
  show "extendsTo 0 [] c table" using resetPhase_Inr [OF r] z by (blast intro: extendsTo_trans)
  show "sameButCounts self self'" using z by simp
qed

lemma numZSlices_not_OutOfOrder: "numZSlices self \<noteq> Inl OutOfOrder"
  by (simp add: numZSlices_def floatDiv_def Let_def split: option.splits)

lemma sliceLoop_not_OutOfOrder:
  assumes "nonNegative orc"
  shows "sliceLoop orc self \<noteq> Inl OutOfOrder"
proof
  assume bad: "sliceLoop orc self = Inl OutOfOrder"
  then obtain c0 t0 n where r: "resetPhase orc self = Inr (c0, t0)"
    and l: "forEachM (zSlice orc) (rangeN n) (c0, t0, self, None) = Inl OutOfOrder"
    using resetPhase_not_OutOfOrder [of orc self] numZSlices_not_OutOfOrder [of self]
    by (auto simp: sliceLoop_def bindE_eq_Inl)
  have "upTo t0 c0" using resetPhase_Inr [OF r] by (rule extendsTo_from_empty)
  from zSliceLoop_not_OutOfOrder [OF this assms] show False using l by simp
qed

lemma returnPhase_Inr:
  assumes "returnPhase orc (c, table, self) = Inr (table', self')"
  shows "\<exists>m s. handlerGetMovementTime orc (zPositioner self) (zHeight self) 0 = Inr (m, s)
          \<and> table' = table @
               [\<lparr>timestamp = c + m, target = zPositioner self, payload = MoveAbsolute (zStart self)\<rparr>,
                \<lparr>timestamp = max (c + m + s)
                    (cameraReadyTime orc self (table @
                       [\<lparr>timestamp = c + m, target = zPositioner self,
                          payload = MoveAbsolute (zStart self)\<rparr>])),
                  target = zPositioner self, payload = MoveAbsolute (zStart self)\<rparr>]
          \<and> self' = self"
proof -
  from assms obtain m s t1 where
    q: "handlerGetMovementTime orc (zPositioner self) (zHeight self) 0 = Inr (m, s)"
    and a1: "addAction (c + m) (zPositioner self) (MoveAbsolute (zStart self)) table = Inr t1"
    and a2: "addAction (max (c + m + s) (cameraReadyTime orc self t1)) (zPositioner self)
               (MoveAbsolute (zStart self)) t1 = Inr table'"
    and s: "self' = self"
    by (auto simp: returnPhase_def bindE_eq_Inr)
  show ?thesis using q s addAction_Inr [OF a2] unfolding addAction_Inr [OF a1] by simp
qed

lemma returnPhase_extendsTo:
  assumes "returnPhase orc (c, table, self) = Inr (table', self')" and "nonNegative orc"
  shows "\<exists>c'. extendsTo c table c' table'"
proof -
  from returnPhase_Inr [OF assms(1)] obtain m s where
    q: "handlerGetMovementTime orc (zPositioner self) (zHeight self) 0 = Inr (m, s)"
    and t: "table' = (table @
               [\<lparr>timestamp = c + m, target = zPositioner self, payload = MoveAbsolute (zStart self)\<rparr>]) @
                [\<lparr>timestamp = max (c + m + s)
                    (cameraReadyTime orc self (table @
                       [\<lparr>timestamp = c + m, target = zPositioner self,
                          payload = MoveAbsolute (zStart self)\<rparr>])),
                  target = zPositioner self, payload = MoveAbsolute (zStart self)\<rparr>]"
    by auto
  have ms: "0 \<le> m \<and> 0 \<le> s" using q assms(2) by (rule handlerGetMovementTime_nonNegative)
  let ?t1 = "table @ [\<lparr>timestamp = c + m, target = zPositioner self, payload = MoveAbsolute (zStart self)\<rparr>]"
  let ?f = "max (c + m + s) (cameraReadyTime orc self ?t1)"
  have "extendsTo c table (c + m) ?t1" using ms by (intro extendsTo_snoc) simp
  moreover have "c + m \<le> ?f" using ms by (intro max.coboundedI1) simp
  then have "extendsTo (c + m) ?t1 ?f table'"
    unfolding t by (rule extendsTo_snoc)
  ultimately have "extendsTo c table ?f table'" by (rule extendsTo_trans)
  then show ?thesis by blast
qed

lemma returnPhase_not_OutOfOrder:
  assumes "upTo table c" and "nonNegative orc"
  shows "returnPhase orc (c, table, self) \<noteq> Inl OutOfOrder"
proof
  assume bad: "returnPhase orc (c, table, self) = Inl OutOfOrder"
  then obtain m s where
    q: "handlerGetMovementTime orc (zPositioner self) (zHeight self) 0 = Inr (m, s)"
    and bad1: "bindE (addAction (c + m) (zPositioner self) (MoveAbsolute (zStart self)) table)
       (\<lambda>table1.
          bindE (addAction (max (c + m + s) (cameraReadyTime orc self table1))
                   (zPositioner self) (MoveAbsolute (zStart self)) table1)
            (\<lambda>table2. Inr (table2, self))) = Inl OutOfOrder"
    using handlerGetMovementTime_not_OutOfOrder [of orc "zPositioner self" "zHeight self" 0]
    by (auto simp: returnPhase_def bindE_eq_Inl)
  have ms: "0 \<le> m \<and> 0 \<le> s" using q assms(2) by (rule handlerGetMovementTime_nonNegative)
  let ?t1 = "table @ [\<lparr>timestamp = c + m, target = zPositioner self, payload = MoveAbsolute (zStart self)\<rparr>]"
  have u0: "upTo table (c + m)" using assms(1) ms by (fastforce simp: upTo_def)
  have a1: "addAction (c + m) (zPositioner self) (MoveAbsolute (zStart self)) table = Inr ?t1"
    using u0 by (rule addAction_upTo)
  have "c + m \<le> max (c + m + s) (cameraReadyTime orc self ?t1)"
    using ms by (intro max.coboundedI1) simp
  then have "upTo ?t1 (max (c + m + s) (cameraReadyTime orc self ?t1))"
    using u0 by (fastforce simp: upTo_def)
  from addAction_upTo [OF this] show False using bad1 a1 by simp
qed

subsection \<open>The experiment object after a run; the camera-ready time\<close>

lemma zSlice_sameButCounts:
  assumes "zSlice orc i (c, table, self, prev) = Inr (c', table', self', prev')"
  shows "sameButCounts self self'"
proof -
  from assms obtain c1 t1 c2 t2 where
    "forEachM (sequenceStep orc) [0..<length (sequence self)] (c1, t1, self) = Inr (c2, t2, self')"
    by (auto simp: zSlice_def Let_def bindE_eq_Inr)
  from sequenceLoop_Inr [OF this] show ?thesis by simp
qed

lemma zSliceLoop_sameButCounts:
  assumes "forEachM (zSlice orc) is (c, table, self, prev) = Inr (c', table', self', prev')"
  shows "sameButCounts self self'"
proof -
  let ?I = "\<lambda>(c1 :: rat, t1 :: actionTable, s1, p1 :: rat option). sameButCounts self s1"
  have "?I (c', table', self', prev')"
  proof (rule forEachM_invariant [OF assms, where I = ?I])
    show "?I (c, table, self, prev)" by simp
  next
    fix x t t' assume I: "?I t" and step: "zSlice orc x t = Inr t'"
    obtain c1 t1 s1 p1 where t: "t = (c1, t1, s1, p1)" by (cases t)
    obtain c2 t2 s2 p2 where t': "t' = (c2, t2, s2, p2)" by (cases t')
    have "sameButCounts self s2"
      using I t zSlice_sameButCounts [OF step [unfolded t t']]
      by (auto intro: sameButCounts_trans)
    then show "?I t'" using t' by simp
  qed
  then show ?thesis by simp
qed

lemma sliceLoop_sameButCounts:
  assumes "sliceLoop orc self = Inr (c, table, self', prev)"
  shows "sameButCounts self self'"
proof -
  from assms obtain c0 t0 n where
    "forEachM (zSlice orc) (rangeN n) (c0, t0, self, None) = Inr (c, table, self', prev)"
    by (auto simp: sliceLoop_def bindE_eq_Inr)
  then show ?thesis by (rule zSliceLoop_sameButCounts)
qed

lemma fold_max_Max: "fold (\<lambda>x t. max t (f x)) xs (t::rat) = Max (insert t (f ` set xs))"
proof (induction xs arbitrary: t)
  case Nil
  then show ?case by simp
next
  case (Cons x xs)
  show ?case
    by (simp add: Cons.IH Max_insert_max del: Max_insert)
qed

lemma Max_insert_Max_Un:
  assumes "finite A" and "finite B"
  shows "Max (insert (Max (insert (t::rat) A)) B) = Max (insert t (A \<union> B))"
proof (cases "B = {}")
  case True
  then show ?thesis by simp
next
  case False
  have "Max (insert t A \<union> B) = max (Max (insert t A)) (Max B)"
    using assms False by (intro Max_Un) simp_all
  also have "\<dots> = Max (insert (Max (insert t A)) B)"
    using assms False by (simp del: Max_insert add: Max.insert)
  finally show ?thesis by simp
qed

lemma fold_Max_Union:
  "fold (\<lambda>(cams, lightTimePairs) t. Max (insert t (g ` set cams))) es (t::rat)
     = Max (insert t (g ` (\<Union>(cams, lightTimePairs) \<in> set es. set cams)))"
proof (induction es arbitrary: t)
  case Nil
  then show ?case by simp
next
  case (Cons e es)
  obtain cams pairs where e: "e = (cams, pairs)" by (cases e)
  have "fold (\<lambda>(cams, lightTimePairs) t. Max (insert t (g ` set cams))) (e # es) t
        = Max (insert (Max (insert t (g ` set cams)))
                 (g ` (\<Union>(cams, lightTimePairs) \<in> set es. set cams)))"
    unfolding e using Cons.IH [of "Max (insert t (g ` set cams))"] by simp
  also have "\<dots> = Max (insert t (g ` set cams \<union> g ` (\<Union>(cams, lightTimePairs) \<in> set es. set cams)))"
    by (rule Max_insert_Max_Un) (auto split: prod.splits)
  also have "g ` set cams \<union> g ` (\<Union>(cams, lightTimePairs) \<in> set es. set cams)
             = g ` (\<Union>(cams, lightTimePairs) \<in> set (e # es). set cams)"
    unfolding e by auto
  finally show ?case .
qed

lemma cameraReadyTime_Max:
  "cameraReadyTime orc self table =
     (if numReps self > 1
      then Max (insert 0 (getTimeWhenCameraCanExpose orc table `
                  (\<Union>(cams, lightTimePairs) \<in> set (exposureSettings self). set cams)))
      else 0)"
proof -
  have inner: "(\<lambda>(cams, lightTimePairs :: (handler \<times> rat) list) t.
               fold (\<lambda>camera t'. max t' (getTimeWhenCameraCanExpose orc table camera)) cams t)
        = (\<lambda>(cams, lightTimePairs) t. Max (insert t (getTimeWhenCameraCanExpose orc table ` set cams)))"
    by (simp add: fun_eq_iff fold_max_Max del: Max_insert)
  show ?thesis
    unfolding cameraReadyTime_def inner fold_Max_Union ..
qed

lemma cameraReadyTime_cong:
  assumes "getExposureTime orc' = getExposureTime orc"
    and "getTimeBetweenExposures orc' = getTimeBetweenExposures orc"
  shows "cameraReadyTime orc' self table = cameraReadyTime orc self table"
proof -
  have "getTimeWhenCameraCanExpose orc' = getTimeWhenCameraCanExpose orc"
    by (simp add: fun_eq_iff getTimeWhenCameraCanExpose_def assms split: option.splits)
  then show ?thesis unfolding cameraReadyTime_def by (simp only:)
qed

lemma generateActions_Inr:
  assumes "generateActions orc self = Inr (table, self')"
  shows "\<exists>c t p m s. sliceLoop orc self = Inr (c, t, self', p)
          \<and> zPositioner self \<noteq> NoneHandler
          \<and> getMovementTime orc (zPositioner self) (zHeight self) 0 = Some (m, s)
          \<and> table = t @
               [\<lparr>timestamp = c + m, target = zPositioner self, payload = MoveAbsolute (zStart self)\<rparr>,
                \<lparr>timestamp = max (c + m + s)
                    (cameraReadyTime orc self (t @
                       [\<lparr>timestamp = c + m, target = zPositioner self,
                          payload = MoveAbsolute (zStart self)\<rparr>])),
                  target = zPositioner self, payload = MoveAbsolute (zStart self)\<rparr>]"
proof -
  from assms obtain c t s1 p where l: "sliceLoop orc self = Inr (c, t, s1, p)"
    and r: "returnPhase orc (c, t, s1) = Inr (table, self')"
    by (auto simp: generateActions_def bindE_eq_Inr)
  note f = sameButCounts_fields [OF sliceLoop_sameButCounts [OF l]]
  from returnPhase_Inr [OF r] obtain m s where
    q: "handlerGetMovementTime orc (zPositioner s1) (zHeight s1) 0 = Inr (m, s)"
    and t: "table = t @
               [\<lparr>timestamp = c + m, target = zPositioner s1, payload = MoveAbsolute (zStart s1)\<rparr>,
                \<lparr>timestamp = max (c + m + s)
                    (cameraReadyTime orc s1 (t @
                       [\<lparr>timestamp = c + m, target = zPositioner s1,
                          payload = MoveAbsolute (zStart s1)\<rparr>])),
                  target = zPositioner s1, payload = MoveAbsolute (zStart s1)\<rparr>]"
    and s1: "self' = s1"
    by blast
  have crt: "cameraReadyTime orc s1 x = cameraReadyTime orc self x" for x
    by (simp add: cameraReadyTime_def f)
  show ?thesis
    using l handlerGetMovementTime_Inr [OF q] t unfolding s1 crt
    by (simp add: f)
qed

subsection \<open>Two runs from states that differ in the image counts\<close>

lemma sameButCounts_update:
  assumes "sameButCounts a b" and "dom k = dom k'"
  shows "sameButCounts (a\<lparr>cameraToImageCount := k\<rparr>) (b\<lparr>cameraToImageCount := k'\<rparr>)"
proof -
  from assms(1) obtain counts where b: "b = a\<lparr>cameraToImageCount := counts\<rparr>"
    unfolding sameButCounts_def by blast
  have "b\<lparr>cameraToImageCount := k'\<rparr> = (a\<lparr>cameraToImageCount := k\<rparr>)\<lparr>cameraToImageCount := k'\<rparr>"
    by (simp add: b)
  moreover have "dom k' = dom (cameraToImageCount (a\<lparr>cameraToImageCount := k\<rparr>))"
    using assms(2) by simp
  ultimately show ?thesis unfolding sameButCounts_def by blast
qed

lemma bindE_rel:
  assumes "rel_sum (=) R m m'"
    and "\<And>x x'. R x x' \<Longrightarrow> rel_sum (=) S (f x) (f' x')"
  shows "rel_sum (=) S (bindE m f) (bindE m' f')"
  using assms by (cases m; cases m') simp_all

lemma bindE_rel_same:
  assumes "\<And>x. rel_sum (=) S (f x) (f' x)"
  shows "rel_sum (=) S (bindE m f) (bindE m f')"
  using assms by (cases m) simp_all

lemma forEachM_rel:
  assumes "R s s'"
    and "\<And>x t t'. R t t' \<Longrightarrow> rel_sum (=) R (f x t) (f' x t')"
  shows "rel_sum (=) R (forEachM f xs s) (forEachM f' xs s')"
  using assms(1)
proof (induction xs arbitrary: s s')
  case Nil
  then show ?case by simp
next
  case (Cons x xs)
  from assms(2) [OF Cons.prems, of x] show ?case
    by (cases "f x s"; cases "f' x s'") (simp_all add: Cons.IH)
qed

lemma triggerCamera_rel:
  assumes "dom m = dom m'"
  shows "rel_sum (=) sameCounting
           (triggerCamera c cam (table, m)) (triggerCamera c cam (table, m'))"
proof (cases "addAction c cam (SetDigital True) table")
  case (Inl e)
  then show ?thesis by (simp add: triggerCamera_def)
next
  case (Inr t1)
  show ?thesis
  proof (cases "m cam")
    case None
    then have "m' cam = None" using assms by (metis domIff)
    then show ?thesis using None Inr by (simp add: triggerCamera_def)
  next
    case (Some n)
    then obtain n' where "m' cam = Some n'" using assms by (metis domIff option.exhaust)
    then show ?thesis using Some Inr assms by (simp add: triggerCamera_def sameCounting_def)
  qed
qed

lemma triggerCamera_loop_rel:
  assumes "dom m = dom m'"
  shows "rel_sum (=) sameCounting
      (forEachM (triggerCamera c) cams (table, m)) (forEachM (triggerCamera c) cams (table, m'))"
proof (rule forEachM_rel)
  show "sameCounting (table, m) (table, m')" using assms by (simp add: sameCounting_def)
next
  fix x t t'
  assume "sameCounting t t'"
  then obtain tb k k' where "t = (tb, k)" "t' = (tb, k')" "dom k = dom k'"
    by (cases t; cases t') (auto simp: sameCounting_def)
  then show "rel_sum (=) sameCounting (triggerCamera c x t) (triggerCamera c x t')"
    using triggerCamera_rel by simp
qed

lemma expose_rel:
  assumes "sameButCounts s s'"
  shows "rel_sum (=) sameStep (expose w orc s c cams table) (expose w orc s' c cams table)"
proof -
  note f = sameButCounts_fields [OF assms]
  obtain a r where scan: "exposeScan w orc table cams (0, 0) = (a, r)"
    by (cases "exposeScan w orc table cams (0, 0)")
  have fin: "rel_sum (=) sameStep
        (case x of (table2, counts) \<Rightarrow>
           Inr (max r (c + a), table2, s\<lparr>cameraToImageCount := counts\<rparr>))
        (case x' of (table2, counts) \<Rightarrow>
           Inr (max r (c + a), table2, s'\<lparr>cameraToImageCount := counts\<rparr>))"
    if "sameCounting x x'" for x x'
  proof -
    from that obtain tb k k' where x: "x = (tb, k)" "x' = (tb, k')" and d: "dom k = dom k'"
      by (cases x; cases x') (auto simp: sameCounting_def)
    show ?thesis
      unfolding x using sameButCounts_update [OF assms d] by (simp add: sameStep_def)
  qed
  show ?thesis
    unfolding expose_def scan prod.case f(2)
    by (rule bindE_rel_same, rule bindE_rel [OF triggerCamera_loop_rel [OF f(13) [symmetric]]])
       (rule fin)
qed

lemma sequenceStep_rel:
  assumes "sameStep x y"
  shows "rel_sum (=) sameStep (sequenceStep orc i x) (sequenceStep orc i y)"
proof -
  from assms obtain c t s s' where x: "x = (c, t, s)" and y: "y = (c, t, s')"
    and ss: "sameButCounts s s'"
    by (cases x; cases y) (auto simp: sameStep_def)
  note f = sameButCounts_fields [OF ss]
  have fin: "rel_sum (=) sameStep
      (case u of (curTime', table3, self') \<Rightarrow> Inr (curTime' + 5, table3, self'))
      (case u' of (curTime', table3, self') \<Rightarrow> Inr (curTime' + 5, table3, self'))"
    if "sameStep u u'" for u u'
    using that by (cases u; cases u') (auto simp: sameStep_def)
  show ?thesis
    unfolding x y sequenceStep_def prod.case f
    by (rule bindE_rel_same, rule bindE_rel_same, rule bindE_rel [OF expose_rel [OF ss]])
       (rule fin)
qed

lemma sequenceLoop_rel:
  assumes "sameStep x y"
  shows "rel_sum (=) sameStep (forEachM (sequenceStep orc) is x) (forEachM (sequenceStep orc) is y)"
  using assms by (rule forEachM_rel) (rule sequenceStep_rel)

lemma zSlice_rel:
  assumes "sameSlice x y"
  shows "rel_sum (=) sameSlice (zSlice orc i x) (zSlice orc i y)"
proof -
  from assms obtain c t s s' p where x: "x = (c, t, s, p)" and y: "y = (c, t, s', p)"
    and ss: "sameButCounts s s'"
    by (cases x; cases y) (auto simp: sameSlice_def)
  note f = sameButCounts_fields [OF ss]
  let ?z = "zStart s + sliceHeight s * of_nat i"
  have mv: "zMove orc s' ?z = zMove orc s ?z"
    by (simp add: zMove_def f fun_eq_iff cong: option.case_cong)
  have fin: "rel_sum (=) sameSlice
      (case u of (curTime2, table2, self2) \<Rightarrow>
         bindE (addAction curTime2 (zPositioner self2) (MoveAbsolute ?z) table2)
           (\<lambda>table3. Inr (curTime2, table3, self2, p1)))
      (case u' of (curTime2, table2, self2) \<Rightarrow>
         bindE (addAction curTime2 (zPositioner self2) (MoveAbsolute ?z) table2)
           (\<lambda>table3. Inr (curTime2, table3, self2, p1)))"
    if "sameStep u u'" for u u' p1
  proof -
    from that obtain c2 t2 s2 s2' where u: "u = (c2, t2, s2)" "u' = (c2, t2, s2')"
      and s2: "sameButCounts s2 s2'"
      by (cases u; cases u') (auto simp: sameStep_def)
    show ?thesis
      unfolding u prod.case sameButCounts_fields(4) [OF s2]
      by (rule bindE_rel_same) (simp add: sameSlice_def s2)
  qed
  have body: "rel_sum (=) sameSlice
      (case v of (curTime1, table1, prevAltitude1) \<Rightarrow>
         bindE (forEachM (sequenceStep orc) [0..<length (sequence s)] (curTime1, table1, s))
           (\<lambda>(curTime2, table2, self2).
              bindE (addAction curTime2 (zPositioner self2) (MoveAbsolute ?z) table2)
                (\<lambda>table3. Inr (curTime2, table3, self2, prevAltitude1))))
      (case v of (curTime1, table1, prevAltitude1) \<Rightarrow>
         bindE (forEachM (sequenceStep orc) [0..<length (sequence s)] (curTime1, table1, s'))
           (\<lambda>(curTime2, table2, self2).
              bindE (addAction curTime2 (zPositioner self2) (MoveAbsolute ?z) table2)
                (\<lambda>table3. Inr (curTime2, table3, self2, prevAltitude1))))" for v
  proof -
    obtain c1 t1 p1 where v: "v = (c1, t1, p1)" by (cases v)
    have "sameStep (c1, t1, s) (c1, t1, s')" using ss by (simp add: sameStep_def)
    from sequenceLoop_rel [OF this] show ?thesis
      unfolding v prod.case by (rule bindE_rel) (rule fin)
  qed
  show ?thesis
    unfolding x y zSlice_def prod.case Let_def f mv
    by (rule bindE_rel_same) (rule body)
qed

lemma returnPhase_rel:
  assumes "sameButCounts s s'"
  shows "rel_sum (=) sameRun (returnPhase orc (c, t, s)) (returnPhase orc (c, t, s'))"
proof -
  note f = sameButCounts_fields [OF assms]
  have crt: "cameraReadyTime orc s' x = cameraReadyTime orc s x" for x
    by (simp add: cameraReadyTime_def f)
  show ?thesis
    unfolding returnPhase_def prod.case f crt
    by (auto simp: bindE_def sameRun_def assms split: sum.splits prod.splits)
qed

lemma generateActions_rel:
  assumes "sameButCounts s s'"
  shows "rel_sum (=) sameRun (generateActions orc s) (generateActions orc s')"
proof -
  note f = sameButCounts_fields [OF assms]
  have reset: "resetPhase orc s' = resetPhase orc s"
    by (simp add: resetPhase_def f)
  have n: "numZSlices s' = numZSlices s"
    by (simp add: numZSlices_def f cong: option.case_cong)
  have loop: "rel_sum (=) sameSlice
      (forEachM (zSlice orc) is (c, t, s, None)) (forEachM (zSlice orc) is (c, t, s', None))"
    for "is" c t
    by (rule forEachM_rel) (simp_all add: sameSlice_def assms zSlice_rel)
  have sl: "rel_sum (=) sameSlice (sliceLoop orc s) (sliceLoop orc s')"
    unfolding sliceLoop_def reset n
    by (rule bindE_rel_same) (auto intro!: bindE_rel_same loop)
  have fin: "rel_sum (=) sameRun
      (case u of (curTime, table, self', prevAltitude) \<Rightarrow> returnPhase orc (curTime, table, self'))
      (case u' of (curTime, table, self', prevAltitude) \<Rightarrow> returnPhase orc (curTime, table, self'))"
    if "sameSlice u u'" for u u'
  proof -
    from that obtain c t a b p where u: "u = (c, t, a, p)" "u' = (c, t, b, p)"
      and ab: "sameButCounts a b"
      by (cases u; cases u') (auto simp: sameSlice_def)
    show ?thesis unfolding u prod.case using ab by (rule returnPhase_rel)
  qed
  show ?thesis
    unfolding generateActions_def by (rule bindE_rel [OF sl]) (rule fin)
qed

lemma generateActions_sameButCounts:
  assumes "generateActions orc self = Inr (table, self')"
  shows "sameButCounts self self'"
proof -
  from assms obtain c t s1 p where l: "sliceLoop orc self = Inr (c, t, s1, p)"
    and r: "returnPhase orc (c, t, s1) = Inr (table, self')"
    by (auto simp: generateActions_def bindE_eq_Inr)
  from returnPhase_Inr [OF r] have "s1 = self'" by blast
  then show ?thesis using sliceLoop_sameButCounts [OF l] by simp
qed

section \<open>Properties\<close>

subsection \<open>The stage axis timing\<close>

text \<open>
  Claim C7, as stated, fails: the claim promises two non-negative components for all
  inputs, and a configured settling time of \<open>-1\<close> comes back as the second component.
\<close>

theorem axisGetMovementTime_negative_settling:
  "axisGetMovementTime badAxis 2 0 10 = Inr (1 / 100, - 1)"
  by (simp add: axisGetMovementTime_def badAxis_def)

text \<open>
  Claim C7, amended. Let \<open>v\<close> be the velocity the wrapped axis reports when it has
  one, and otherwise the configured velocity (default 1000), and let \<open>s\<close> be the
  configured settling time (default 10). When \<open>v\<close> is positive and \<open>s\<close> is not
  negative, \<open>getMovementTime(axis, start, end)\<close> returns the pair
  \<open>(|end - start| / v, s)\<close>, both components are non-negative, and the result is the
  same with \<open>start\<close> and \<open>end\<close> exchanged.
\<close>

theorem axisGetMovementTime_value:
  fixes self :: stageAxis
  defines "v \<equiv> (case axisVelocity self of Some d \<Rightarrow> d
                 | None \<Rightarrow> (case velocity self of Some c \<Rightarrow> c | None \<Rightarrow> 1000))"
  defines "s \<equiv> (case settlingtime self of Some c \<Rightarrow> c | None \<Rightarrow> 10)"
  assumes "0 < v" and "0 \<le> s"
  shows "axisGetMovementTime self axis start end' = Inr (\<bar>end' - start\<bar> / v, s)
       \<and> 0 \<le> \<bar>end' - start\<bar> / v \<and> 0 \<le> s
       \<and> axisGetMovementTime self axis end' start = axisGetMovementTime self axis start end'"
  using assms
  by (auto simp: axisGetMovementTime_def Let_def abs_minus_commute split: option.splits)

theorem axisGetMovementTime_value_witness:
  "(0::rat) < 1 / 2 \<and> (0::rat) \<le> 5
     \<and> axisGetMovementTime slowAxis 2 0 10 = Inr (20, 5)
     \<and> axisGetMovementTime slowAxis 2 10 0 = axisGetMovementTime slowAxis 2 0 10"
  using axisGetMovementTime_value [of slowAxis 2 0 10]
  by (simp add: slowAxis_def)

subsection \<open>Concrete runs\<close>

lemma nonNegative_scenarioOracle: "nonNegative scenarioOracle"
  by (auto simp: nonNegative_def scenarioOracle_def axisCallback_def axisGetMovementTime_def defaultAxis_def split: sum.splits)

lemma scenario_table: "map_sum id fst (generateActions scenarioOracle scenarioPlan) = Inr
     [\<lparr>timestamp = 0, target = Positioner 2, payload = MoveAbsolute 0\<rparr>,
      \<lparr>timestamp = 0, target = Light 0, payload = SetDigital True\<rparr>,
      \<lparr>timestamp = 0, target = Camera 0, payload = SetDigital True\<rparr>,
      \<lparr>timestamp = 65, target = Light 0, payload = SetDigital True\<rparr>,
      \<lparr>timestamp = 65, target = Camera 0, payload = SetDigital True\<rparr>,
      \<lparr>timestamp = 130, target = Positioner 2, payload = MoveAbsolute 0\<rparr>,
      \<lparr>timestamp = 136314880001 / 1048576000, target = Positioner 2, payload = MoveAbsolute 0\<rparr>,
      \<lparr>timestamp = 146800640001 / 1048576000, target = Positioner 2, payload = MoveAbsolute 0\<rparr>]"
  by code_simp

lemma stackPlan_table:
  "map_sum id fst (generateActions unitOracle (stackPlan 4)) = Inr
     [\<lparr>timestamp = 0, target = Positioner 2, payload = MoveAbsolute 0\<rparr>,
      \<lparr>timestamp = 0, target = Positioner 2, payload = MoveAbsolute 0\<rparr>,
      \<lparr>timestamp = 4, target = Positioner 2, payload = MoveAbsolute 4\<rparr>,
      \<lparr>timestamp = 4, target = Positioner 2, payload = MoveAbsolute 4\<rparr>,
      \<lparr>timestamp = 8, target = Positioner 2, payload = MoveAbsolute 8\<rparr>,
      \<lparr>timestamp = 8, target = Positioner 2, payload = MoveAbsolute 8\<rparr>,
      \<lparr>timestamp = 12, target = Positioner 2, payload = MoveAbsolute 12\<rparr>,
      \<lparr>timestamp = 12, target = Positioner 2, payload = MoveAbsolute 12\<rparr>,
      \<lparr>timestamp = 22, target = Positioner 2, payload = MoveAbsolute 0\<rparr>,
      \<lparr>timestamp = 22, target = Positioner 2, payload = MoveAbsolute 0\<rparr>]"
  by code_simp

lemma flatPlan_table:
  "map_sum id fst (generateActions scenarioOracle flatPlan) = Inr
     [\<lparr>timestamp = 0, target = Positioner 2, payload = MoveAbsolute 0\<rparr>,
      \<lparr>timestamp = 10, target = Positioner 2, payload = MoveAbsolute 0\<rparr>]"
  by code_simp

lemma scenario_counts:
  "map_sum id (\<lambda>(t, s). cameraToImageCount s (Camera 0))
     (generateActions scenarioOracle scenarioPlan) = Inr (Some 2)"
  by code_simp

subsection \<open>Monotone timestamps\<close>

text \<open>
  Claim C5. For every plan whose oracle queries all return non-negative times, the run
  of \<open>generateActions\<close> never trips the table's order check, and in the table it
  returns the timestamps of the entries that target any one resource, read in append
  order, are non-decreasing: the whole table is in non-decreasing timestamp order.
\<close>

theorem generateActions_monotone:
  assumes "nonNegative orc"
  shows "generateActions orc self \<noteq> Inl OutOfOrder
       \<and> (\<forall>table self'. generateActions orc self = Inr (table, self')
             \<longrightarrow> sorted (map timestamp table) \<and> (\<forall>h. sorted (timestampsFor table h)))"
proof (intro conjI allI impI)
  show "generateActions orc self \<noteq> Inl OutOfOrder"
  proof
    assume bad: "generateActions orc self = Inl OutOfOrder"
    then obtain c t s p where l: "sliceLoop orc self = Inr (c, t, s, p)"
      and r: "returnPhase orc (c, t, s) = Inl OutOfOrder"
      using sliceLoop_not_OutOfOrder [OF assms, of self]
      by (auto simp: generateActions_def bindE_eq_Inl)
    have "upTo t c" using sliceLoop_Inr(1) [OF l assms] by (rule extendsTo_from_empty)
    from returnPhase_not_OutOfOrder [OF this assms] show False using r by simp
  qed
next
  fix table self'
  assume g: "generateActions orc self = Inr (table, self')"
  then obtain c t s p where l: "sliceLoop orc self = Inr (c, t, s, p)"
    and r: "returnPhase orc (c, t, s) = Inr (table, self')"
    by (auto simp: generateActions_def bindE_eq_Inr)
  note e = sliceLoop_Inr(1) [OF l assms]
  from returnPhase_extendsTo [OF r assms] obtain c' where "extendsTo c t c' table" by blast
  with e have "extendsTo 0 [] c' table" by (rule extendsTo_trans)
  then show "sorted (map timestamp table)" by (rule extendsTo_from_empty)
  then show "sorted (timestampsFor table h)" for h
    unfolding timestampsFor_def by (rule sorted_filter)
qed

theorem generateActions_monotone_witness:
  "nonNegative scenarioOracle
   \<and> (\<exists>table self'. generateActions scenarioOracle scenarioPlan = Inr (table, self')
         \<and> timestampsFor table (Camera 0) = [0, 65]
         \<and> sorted (timestampsFor table (Camera 0)))"
proof -
  obtain table self' where g: "generateActions scenarioOracle scenarioPlan = Inr (table, self')"
    using scenario_table by (cases "generateActions scenarioOracle scenarioPlan") auto
  then have t: "timestampsFor table (Camera 0) = [0, 65]"
    using scenario_table by (simp add: timestampsFor_def)
  show ?thesis
    using generateActions_monotone [OF nonNegative_scenarioOracle, of scenarioPlan]
      nonNegative_scenarioOracle g t
    by blast
qed

subsection \<open>expose\<close>

text \<open>
  Claim C2. For every readiness query, cursor \<open>c\<close>, camera set and table: whenever
  \<open>expose(c, cameras, table)\<close> returns, it has appended a \<open>SetDigital True\<close> at
  timestamp exactly \<open>c\<close> for every light and then for every camera, also when a camera
  is still busy at \<open>c\<close>, and it has returned exactly \<open>max(L, c + D)\<close>: \<open>D\<close> is the
  maximum over the cameras of exposure time plus gap, \<open>L\<close> the maximum over the cameras
  of the earliest-available time read from the table as it was before the appends. Both
  running maxima start at 0; for non-negative times and at least one camera they are the
  plain maxima. The call returns whenever the table accepts the appends (no light and no
  camera has an entry later than \<open>c\<close>) and every camera has an image counter.
\<close>

theorem expose_result:
  "(\<forall>c' table' self'. expose w orc self c cams table = Inr (c', table', self') \<longrightarrow>
       c' = max (Max (insert 0 (w table ` set cams)))
                (c + Max (insert 0 ((\<lambda>cam. getExposureTime orc cam + getTimeBetweenExposures orc cam)
                                      ` set cams)))
     \<and> (cams \<noteq> [] \<and> (\<forall>cam \<in> set cams. 0 \<le> w table cam
              \<and> 0 \<le> getExposureTime orc cam + getTimeBetweenExposures orc cam)
          \<longrightarrow> c' = max (Max (w table ` set cams))
                       (c + Max ((\<lambda>cam. getExposureTime orc cam + getTimeBetweenExposures orc cam)
                                   ` set cams)))
     \<and> table' = table
          @ map (\<lambda>light. \<lparr>timestamp = c, target = light, payload = SetDigital True\<rparr>) (lights self)
          @ map (\<lambda>cam. \<lparr>timestamp = c, target = cam, payload = SetDigital True\<rparr>) cams
     \<and> (\<exists>counts. self' = self\<lparr>cameraToImageCount := counts\<rparr>))
   \<and> ((\<forall>a \<in> set table. target a \<in> set (lights self) \<union> set cams \<longrightarrow> timestamp a \<le> c)
        \<and> set cams \<subseteq> dom (cameraToImageCount self)
      \<longrightarrow> (\<exists>r. expose w orc self c cams table = Inr r))"
proof (intro conjI allI impI)
  fix c' table' self'
  assume e: "expose w orc self c cams table = Inr (c', table', self')"
  note r = expose_Inr [OF e]
  show "c' = max (Max (insert 0 (w table ` set cams)))
                (c + Max (insert 0 ((\<lambda>cam. getExposureTime orc cam + getTimeBetweenExposures orc cam)
                                      ` set cams)))"
    by (rule r(1))
  show "table' = table
          @ map (\<lambda>light. \<lparr>timestamp = c, target = light, payload = SetDigital True\<rparr>) (lights self)
          @ map (\<lambda>cam. \<lparr>timestamp = c, target = cam, payload = SetDigital True\<rparr>) cams"
    by (rule r(2))
  show "\<exists>counts. self' = self\<lparr>cameraToImageCount := counts\<rparr>"
    using r(3) by blast
  assume nn: "cams \<noteq> [] \<and> (\<forall>cam \<in> set cams. 0 \<le> w table cam
              \<and> 0 \<le> getExposureTime orc cam + getTimeBetweenExposures orc cam)"
  have m: "Max (insert 0 (f ` set cams)) = Max (f ` set cams)"
    if "\<forall>cam \<in> set cams. (0::rat) \<le> f cam" for f
  proof -
    from nn obtain cam where cam: "cam \<in> set cams" by (cases cams) auto
    have "f cam \<le> Max (f ` set cams)" using cam by (intro Max_ge) simp_all
    then have "0 \<le> Max (f ` set cams)" using that cam by (meson order_trans)
    then show ?thesis using nn by (simp add: max_def)
  qed
  show "c' = max (Max (w table ` set cams))
                 (c + Max ((\<lambda>cam. getExposureTime orc cam + getTimeBetweenExposures orc cam)
                             ` set cams))"
    unfolding r(1)
    using m [of "w table"]
      m [of "\<lambda>cam. getExposureTime orc cam + getTimeBetweenExposures orc cam"] nn
    by simp
next
  assume "(\<forall>a \<in> set table. target a \<in> set (lights self) \<union> set cams \<longrightarrow> timestamp a \<le> c)
        \<and> set cams \<subseteq> dom (cameraToImageCount self)"
  then show "\<exists>r. expose w orc self c cams table = Inr r"
    using expose_in_order [of table self cams c w orc] by blast
qed

theorem expose_result_witness:
  "slowReadout busyTable (Camera 0) = 100
   \<and> getExposureTime scenarioOracle (Camera 0) + getTimeBetweenExposures scenarioOracle (Camera 0) = 60
   \<and> (\<exists>counts. expose slowReadout scenarioOracle scenarioPlan 20 [Camera 0] busyTable =
         Inr (100,
              [\<lparr>timestamp = 0, target = Camera 0, payload = SetDigital True\<rparr>,
               \<lparr>timestamp = 20, target = Light 0, payload = SetDigital True\<rparr>,
               \<lparr>timestamp = 20, target = Camera 0, payload = SetDigital True\<rparr>],
              scenarioPlan\<lparr>cameraToImageCount := counts\<rparr>))"
proof -
  note t = expose_result [of slowReadout scenarioOracle scenarioPlan 20 "[Camera 0]" busyTable]
  have ready: "slowReadout busyTable (Camera 0) = 100"
    by (simp add: slowReadout_def busyTable_def getLastActionFor_def)
  have acq: "getExposureTime scenarioOracle (Camera 0)
      + getTimeBetweenExposures scenarioOracle (Camera 0) = 60"
    by (simp add: scenarioOracle_def)
  have "(\<forall>a \<in> set busyTable.
           target a \<in> set (lights scenarioPlan) \<union> set [Camera 0] \<longrightarrow> timestamp a \<le> 20)
        \<and> set [Camera 0] \<subseteq> dom (cameraToImageCount scenarioPlan)"
    by (simp add: busyTable_def scenarioPlan_def)
  with t obtain c' table' self' where
    e: "expose slowReadout scenarioOracle scenarioPlan 20 [Camera 0] busyTable = Inr (c', table', self')"
    by (metis prod_cases3)
  from t e have "c' = max (Max (insert 0 (slowReadout busyTable ` set [Camera 0])))
      (20 + Max (insert 0 ((\<lambda>cam. getExposureTime scenarioOracle cam
                                + getTimeBetweenExposures scenarioOracle cam) ` set [Camera 0])))"
    and "table' = busyTable
          @ map (\<lambda>light. \<lparr>timestamp = 20, target = light, payload = SetDigital True\<rparr>)
              (lights scenarioPlan)
          @ map (\<lambda>cam. \<lparr>timestamp = 20, target = cam, payload = SetDigital True\<rparr>) [Camera 0]"
    and "\<exists>counts. self' = scenarioPlan\<lparr>cameraToImageCount := counts\<rparr>"
    by blast+
  then have "c' = 100"
    and "table' = [\<lparr>timestamp = 0, target = Camera 0, payload = SetDigital True\<rparr>,
               \<lparr>timestamp = 20, target = Light 0, payload = SetDigital True\<rparr>,
               \<lparr>timestamp = 20, target = Camera 0, payload = SetDigital True\<rparr>]"
    and "\<exists>counts. self' = scenarioPlan\<lparr>cameraToImageCount := counts\<rparr>"
    using ready acq by (simp_all add: busyTable_def scenarioPlan_def)
  then show ?thesis using e ready acq by blast
qed

text \<open>
  Claim C9. For a cursor \<open>c \<ge> 0\<close> and a table on which no light has an entry later
  than \<open>c\<close>, whatever the readiness query, \<open>expose(c, [], table)\<close> returns exactly
  \<open>c\<close>, appends exactly one
  \<open>SetDigital True\<close> at timestamp \<open>c\<close> per light and nothing else, and returns the
  experiment object as it was: every image counter is unchanged.
\<close>

theorem expose_no_cameras:
  assumes "0 \<le> c"
    and "\<forall>a \<in> set table. target a \<in> set (lights self) \<longrightarrow> timestamp a \<le> c"
  shows "expose w orc self c [] table =
     Inr (c,
          table @ map (\<lambda>light. \<lparr>timestamp = c, target = light, payload = SetDigital True\<rparr>) (lights self),
          self)"
  using assms by (simp add: expose_def addAction_loop_in_order)

theorem expose_no_cameras_witness:
  "(0::rat) \<le> 20
   \<and> list_all (\<lambda>a. target a \<in> set (lights scenarioPlan) \<longrightarrow> timestamp a \<le> 20) busyTable
   \<and> expose (getTimeWhenCameraCanExpose scenarioOracle) scenarioOracle scenarioPlan 20 []
         busyTable =
       Inr (20,
            [\<lparr>timestamp = 0, target = Camera 0, payload = SetDigital True\<rparr>,
             \<lparr>timestamp = 20, target = Light 0, payload = SetDigital True\<rparr>],
            scenarioPlan)"
  using expose_no_cameras [where c = 20 and table = busyTable and self = scenarioPlan
      and w = "getTimeWhenCameraCanExpose scenarioOracle" and orc = scenarioOracle]
  by (simp add: busyTable_def scenarioPlan_def)

subsection \<open>The number of Z slices\<close>

text \<open>
  Claim C3, as stated, fails: with a stack height of 0 the claim promises one iteration of
  the Z-slice loop. The loop body never runs: the cursor is still 0, the table is empty
  and no altitude has been visited when the loop is over.
\<close>

theorem flatPlan_no_slice:
  "map_sum id (\<lambda>(c, t, s, p). (c, t, p)) (sliceLoop scenarioOracle flatPlan) = Inr (0, [], None)"
  by code_simp

text \<open>
  Claim C3, amended. Let \<open>q\<close> be the float quotient \<open>zHeight / sliceHeight\<close> as the code
  computes it (the exact quotient rounded to the nearest double), for a positive slice
  height. The Z-slice loop of \<open>generateActions\<close> runs over the indices
  \<open>0, \<dots>, k - 1\<close>, where \<open>k\<close> is \<open>ceil(q)\<close> (0 if that is negative), plus one extra
  top-of-volume slice exactly when \<open>zHeight > 1e-6\<close>. So there is no iteration when
  \<open>zHeight = 0\<close>, and there are \<open>ceil(q) + 1\<close> iterations when \<open>zHeight > 1e-6\<close>.
\<close>

theorem zSlice_count:
  assumes "0 < sliceHeight self"
    and "roundToDouble (zHeight self / sliceHeight self) = Some q"
  shows "sliceLoop orc self =
           bindE (resetPhase orc self) (\<lambda>(c, t).
             forEachM (zSlice orc)
               [0..<nat \<lceil>q\<rceil> + (if zHeight self > float1eMinus6 then 1 else 0)]
               (c, t, self, None))
       \<and> (zHeight self = 0 \<longrightarrow>
            nat \<lceil>q\<rceil> + (if zHeight self > float1eMinus6 then 1 else 0) = 0)
       \<and> (zHeight self > float1eMinus6 \<longrightarrow>
            int (nat \<lceil>q\<rceil> + (if zHeight self > float1eMinus6 then 1 else 0)) = \<lceil>q\<rceil> + 1)"
proof -
  define k where "k = nat \<lceil>q\<rceil> + (if zHeight self > float1eMinus6 then 1 else 0)"
  have t: "0 < float1eMinus6" by (simp add: float1eMinus6_def)
  have pos: "0 \<le> \<lceil>q\<rceil>" if "zHeight self > float1eMinus6"
  proof -
    have "0 \<le> zHeight self / sliceHeight self" using that t assms(1) by simp
    then have "0 \<le> q" using assms(2) by (rule roundToDouble_nonneg)
    then show ?thesis by (simp add: le_ceiling_iff)
  qed
  have n: "numZSlices self = Inr (if zHeight self > float1eMinus6 then \<lceil>q\<rceil> + 1 else \<lceil>q\<rceil>)"
  proof -
    have "floatDiv (zHeight self) (sliceHeight self) = Inr (Some q)"
      using assms by (simp add: floatDiv_def)
    then show ?thesis unfolding numZSlices_def Let_def by (simp only: bindE_Inr option.case)
  qed
  have r: "rangeN (if zHeight self > float1eMinus6 then \<lceil>q\<rceil> + 1 else \<lceil>q\<rceil>) = [0..<k]"
  proof (cases "zHeight self > float1eMinus6")
    case True
    then show ?thesis using pos unfolding k_def rangeN_def by (simp add: nat_add_distrib)
  next
    case False
    then show ?thesis unfolding k_def rangeN_def by (simp only: if_False add_0_right)
  qed
  have l: "sliceLoop orc self =
      bindE (resetPhase orc self) (\<lambda>(c, t). forEachM (zSlice orc) [0..<k] (c, t, self, None))"
    unfolding sliceLoop_def n bindE_Inr r ..
  have z: "zHeight self = 0 \<longrightarrow> k = 0"
  proof
    assume h: "zHeight self = 0"
    then have "q = 0" using assms(2) by simp
    then show "k = 0" unfolding k_def using h t by simp
  qed
  have e: "zHeight self > float1eMinus6 \<longrightarrow> int k = \<lceil>q\<rceil> + 1"
  proof
    assume h: "zHeight self > float1eMinus6"
    then have "k = nat \<lceil>q\<rceil> + 1" unfolding k_def by (simp only: if_True)
    then show "int k = \<lceil>q\<rceil> + 1" using pos [OF h] by simp
  qed
  show ?thesis using l z e unfolding k_def by blast
qed

lemma tenths_quotient:
  "roundToDouble (zHeight tenthsPlan / sliceHeight tenthsPlan) = Some 11"
  by code_simp

theorem zSlice_count_witness:
  "0 < sliceHeight tenthsPlan
   \<and> roundToDouble (zHeight tenthsPlan / sliceHeight tenthsPlan) = Some 11
   \<and> 11 < zHeight tenthsPlan / sliceHeight tenthsPlan
   \<and> sliceLoop unitOracle tenthsPlan =
        bindE (resetPhase unitOracle tenthsPlan) (\<lambda>(c, t).
          forEachM (zSlice unitOracle) [0..<12] (c, t, tenthsPlan, None))"
proof -
  have h: "0 < sliceHeight tenthsPlan"
    by (simp add: tenthsPlan_def stackPlan_def float0_1_def)
  have z: "zHeight tenthsPlan > float1eMinus6"
    by (simp add: tenthsPlan_def float1_1_def float1eMinus6_def)
  have x: "11 < zHeight tenthsPlan / sliceHeight tenthsPlan"
    by (simp add: tenthsPlan_def stackPlan_def float0_1_def float1_1_def)
  show ?thesis
    using zSlice_count [OF h tenths_quotient, of unitOracle] h z x tenths_quotient
    by (simp del: upt_Suc)
qed

subsection \<open>The Z move of a slice\<close>

text \<open>
  Claim C1, as stated, fails: the claim promises the \<open>MoveAbsolute\<close> entry at the
  cursor at which the move begins. For a move from 0 to 10 that takes 20 and settles in
  5, begun at cursor 0, the entry has timestamp 20, the time at which the move ends.
\<close>

theorem zMove_entry_at_end_of_move:
  "zMove fixedOracle movingPlan 10 (0, [], Some 0) =
     Inr (25, [\<lparr>timestamp = 20, target = Positioner 2, payload = MoveAbsolute 10\<rparr>], Some 10)"
  by code_simp

text \<open>
  Claim C1, amended. In the Z-slice loop, when a previous altitude exists and the oracle
  reports \<open>(moveTime, settleTime)\<close> for the move, the \<open>MoveAbsolute\<close> entry is appended
  at the cursor advanced by the move time (the time the move ends), and every entry
  appended after it in that slice has a timestamp of at least cursor + moveTime +
  settleTime, where the cursor then stands or further. For \<open>(20, 5)\<close> from cursor \<open>c\<close>:
  the entry is at \<open>c + 20\<close>, and nothing is appended before \<open>c + 25\<close> afterwards.
\<close>

theorem zSlice_move_entry:
  assumes "handlerGetMovementTime orc (zPositioner self) a
             (zStart self + sliceHeight self * of_nat i) = Inr (m, s)"
    and "zSlice orc i (c, table, self, Some a) = Inr (c', table', self', prev')"
  shows "\<exists>rest. table' = table @
            \<lparr>timestamp = c + m, target = zPositioner self,
               payload = MoveAbsolute (zStart self + sliceHeight self * of_nat i)\<rparr> # rest
          \<and> (\<forall>e \<in> set rest. c + m + s \<le> timestamp e)
          \<and> c + m + s \<le> c'"
proof -
  let ?z = "zStart self + sliceHeight self * of_nat i"
  from assms(2) obtain c1 t1 c2 t2 where
    mv: "zMove orc self ?z (c, table, Some a) = Inr (c1, t1, prev')"
    and sq: "forEachM (sequenceStep orc) [0..<length (sequence self)] (c1, t1, self) = Inr (c2, t2, self')"
    and add: "addAction c2 (zPositioner self') (MoveAbsolute ?z) t2 = Inr table'"
    and c': "c' = c2"
    by (auto simp: zSlice_def Let_def bindE_eq_Inr)
  from zMove_Inr [OF mv] assms(1)
  have t1: "t1 = table @ [\<lparr>timestamp = c + m, target = zPositioner self, payload = MoveAbsolute ?z\<rparr>]"
    and c1: "c1 = c + m + s"
    by auto
  from sequenceLoop_Inr [OF sq] obtain r2 where le: "c1 \<le> c2" and t2: "t2 = t1 @ r2"
    and b2: "\<forall>e \<in> set r2. c1 \<le> timestamp e"
    by (auto simp: extendsTo_def)
  let ?hold = "\<lparr>timestamp = c2, target = zPositioner self', payload = MoveAbsolute ?z\<rparr>"
  have "table' = table @ \<lparr>timestamp = c + m, target = zPositioner self, payload = MoveAbsolute ?z\<rparr>
                  # (r2 @ [?hold])"
    using addAction_Inr [OF add] t1 t2 by simp
  moreover have "\<forall>e \<in> set (r2 @ [?hold]). c + m + s \<le> timestamp e"
    using b2 le c1 by auto
  moreover have "c + m + s \<le> c'" using le c1 c' by simp
  ultimately show ?thesis by blast
qed

lemma movingPlan_slice:
  "map_sum id (\<lambda>(c, t, s, p). (c, t, p)) (zSlice fixedOracle 1 (0, [], movingPlan, Some 0)) =
     Inr (155,
       [\<lparr>timestamp = 20, target = Positioner 2, payload = MoveAbsolute 10\<rparr>,
        \<lparr>timestamp = 25, target = Light 0, payload = SetDigital True\<rparr>,
        \<lparr>timestamp = 25, target = Camera 0, payload = SetDigital True\<rparr>,
        \<lparr>timestamp = 90, target = Light 0, payload = SetDigital True\<rparr>,
        \<lparr>timestamp = 90, target = Camera 0, payload = SetDigital True\<rparr>,
        \<lparr>timestamp = 155, target = Positioner 2, payload = MoveAbsolute 10\<rparr>],
       Some 10)"
  by code_simp

theorem zSlice_move_entry_witness:
  "handlerGetMovementTime fixedOracle (zPositioner movingPlan) 0
      (zStart movingPlan + sliceHeight movingPlan * of_nat 1) = Inr (20, 5)
   \<and> (\<exists>self' rest. zSlice fixedOracle 1 (0, [], movingPlan, Some 0) =
          Inr (155, \<lparr>timestamp = 20, target = Positioner 2, payload = MoveAbsolute 10\<rparr> # rest,
               self', Some 10)
        \<and> list_all (\<lambda>e. 25 \<le> timestamp e) rest)"
proof -
  have q: "handlerGetMovementTime fixedOracle (zPositioner movingPlan) 0
      (zStart movingPlan + sliceHeight movingPlan * of_nat 1) = Inr (20, 5)"
    by (simp add: handlerGetMovementTime_def fixedOracle_def movingPlan_def scenarioPlan_def)
  obtain c' table' self' prev' where
    r: "zSlice fixedOracle 1 (0, [], movingPlan, Some 0) = Inr (c', table', self', prev')"
    and v: "c' = 155" "prev' = Some 10"
    using movingPlan_slice
    by (cases "zSlice fixedOracle 1 (0, [], movingPlan, Some 0)") auto
  from zSlice_move_entry [OF q r] obtain rest where
    "table' = \<lparr>timestamp = 20, target = Positioner 2, payload = MoveAbsolute 10\<rparr> # rest"
    and "\<forall>e \<in> set rest. 25 \<le> timestamp e"
    by (auto simp: movingPlan_def scenarioPlan_def)
  then show ?thesis using q r v by (auto simp: list_all_iff)
qed

subsection \<open>The return phase\<close>

text \<open>
  Claim C6, as stated, fails: the claim has the oracle queried for the move from the final
  altitude of the slice loop to the start position. A stack of height 10 from altitude 0
  in slices of 4 ends at altitude 12, and on an axis of velocity 1 the move from 12 back
  to 0 takes 12. The return move is scheduled 10 after the cursor 12 the loop ends at:
  the query was for the move from \<open>zHeight = 10\<close> to 0.
\<close>

theorem return_query_not_from_final_altitude:
  "map_sum id (map timestamp \<circ> fst) (generateActions unitOracle (stackPlan 4)) =
     Inr [0, 0, 4, 4, 8, 8, 12, 12, 22, 22]
   \<and> map_sum id (\<lambda>(c, t, s, p). (c, p)) (sliceLoop unitOracle (stackPlan 4)) = Inr (12, Some 12)
   \<and> getMovementTime unitOracle (zPositioner (stackPlan 4)) 12 (zStart (stackPlan 4)) = Some (12, 0)
   \<and> getMovementTime unitOracle (zPositioner (stackPlan 4)) (zHeight (stackPlan 4)) 0 = Some (10, 0)"
  by code_simp

text \<open>
  Claim C6, amended. In the return phase of \<open>generateActions\<close> the motion-time oracle is
  queried with the arguments \<open>(zHeight, 0)\<close>, the stack height and zero, and with no
  others: any oracle with the same answer to this query (and the same camera times)
  gives the same return phase. The cursor is advanced by the reported move time before
  the return move is appended, and the appended return \<open>MoveAbsolute\<close> targets \<open>zStart\<close>.
\<close>

theorem return_query:
  assumes "generateActions orc self = Inr (table, self')"
  shows "\<exists>c t p m s. sliceLoop orc self = Inr (c, t, self', p)
      \<and> getMovementTime orc (zPositioner self) (zHeight self) 0 = Some (m, s)
      \<and> table ! length t =
            \<lparr>timestamp = c + m, target = zPositioner self, payload = MoveAbsolute (zStart self)\<rparr>
      \<and> (\<forall>orc'. getExposureTime orc' = getExposureTime orc
                 \<and> getTimeBetweenExposures orc' = getTimeBetweenExposures orc
                 \<and> getMovementTime orc' (zPositioner self) (zHeight self) 0 = Some (m, s)
               \<longrightarrow> returnPhase orc' (c, t, self') = Inr (table, self'))"
proof -
  from assms obtain c t s1 p where l: "sliceLoop orc self = Inr (c, t, s1, p)"
    and r: "returnPhase orc (c, t, s1) = Inr (table, self')"
    by (auto simp: generateActions_def bindE_eq_Inr)
  from returnPhase_Inr [OF r] have s1: "s1 = self'" by blast
  note f = sameButCounts_fields [OF sliceLoop_sameButCounts [OF l [unfolded s1]]]
  from generateActions_Inr [OF assms] l obtain m s where
    z: "zPositioner self \<noteq> NoneHandler"
    and q: "getMovementTime orc (zPositioner self) (zHeight self) 0 = Some (m, s)"
    and t: "table ! length t =
            \<lparr>timestamp = c + m, target = zPositioner self, payload = MoveAbsolute (zStart self)\<rparr>"
    by auto
  have "returnPhase orc' (c, t, self') = Inr (table, self')"
    if e: "getExposureTime orc' = getExposureTime orc"
      and g: "getTimeBetweenExposures orc' = getTimeBetweenExposures orc"
      and q': "getMovementTime orc' (zPositioner self) (zHeight self) 0 = Some (m, s)" for orc'
  proof -
    have "handlerGetMovementTime orc' (zPositioner self') (zHeight self') 0
          = handlerGetMovementTime orc (zPositioner self') (zHeight self') 0"
      using q q' by (simp add: handlerGetMovementTime_def f)
    then have "returnPhase orc' (c, t, self') = returnPhase orc (c, t, self')"
      unfolding returnPhase_def by (simp add: cameraReadyTime_cong [OF e g])
    then show ?thesis using r s1 by simp
  qed
  then show ?thesis using l s1 q t by blast
qed

theorem return_query_witness:
  "\<exists>table self'. generateActions unitOracle (stackPlan 4) = Inr (table, self')
     \<and> getMovementTime unitOracle (zPositioner (stackPlan 4)) (zHeight (stackPlan 4)) 0 = Some (10, 0)
     \<and> table ! 8 = \<lparr>timestamp = 12 + 10, target = Positioner 2, payload = MoveAbsolute 0\<rparr>"
proof -
  obtain table self' where g: "generateActions unitOracle (stackPlan 4) = Inr (table, self')"
    and t: "table ! 8 = \<lparr>timestamp = 12 + 10, target = Positioner 2, payload = MoveAbsolute 0\<rparr>"
    using stackPlan_table by (cases "generateActions unitOracle (stackPlan 4)") auto
  from return_query [OF g] obtain m s where
    "getMovementTime unitOracle (zPositioner (stackPlan 4)) (zHeight (stackPlan 4)) 0 = Some (m, s)"
    by blast
  moreover have "getMovementTime unitOracle (zPositioner (stackPlan 4)) (zHeight (stackPlan 4)) 0
      = Some (10, 0)"
    by code_simp
  ultimately show ?thesis using g t by auto
qed

text \<open>
  Claim C10. Every run of \<open>generateActions\<close> that completes has executed the return
  phase after the slice loop, also when the loop body never ran: the Z positioner is a
  handler (with no positioner the run cannot complete), its motion-time oracle has
  answered, and the table ends with exactly two entries for the Z positioner appended
  after the slice loop: the return move to \<open>zStart\<close> at cursor + moveTime, then a hold at
  \<open>max(cursor + moveTime + settleTime, cameraReadyTime)\<close>, where \<open>cameraReadyTime\<close> is
  the maximum (at least 0) of the earliest-available times of the cameras of the
  exposure settings when the plan has more than one repetition, and 0 otherwise.
\<close>

theorem generateActions_return_phase:
  assumes "generateActions orc self = Inr (table, self')"
  shows "zPositioner self \<noteq> NoneHandler
     \<and> (\<exists>c t p m s. sliceLoop orc self = Inr (c, t, self', p)
          \<and> getMovementTime orc (zPositioner self) (zHeight self) 0 = Some (m, s)
          \<and> table = t @
               [\<lparr>timestamp = c + m, target = zPositioner self, payload = MoveAbsolute (zStart self)\<rparr>,
                \<lparr>timestamp = max (c + m + s)
                    (if numReps self > 1
                     then Max (insert 0 (getTimeWhenCameraCanExpose orc
                            (t @ [\<lparr>timestamp = c + m, target = zPositioner self,
                                    payload = MoveAbsolute (zStart self)\<rparr>]) `
                            (\<Union>(cams, lightTimePairs) \<in> set (exposureSettings self). set cams)))
                     else 0),
                  target = zPositioner self, payload = MoveAbsolute (zStart self)\<rparr>])"
  using generateActions_Inr [OF assms] unfolding cameraReadyTime_Max by blast

theorem generateActions_return_phase_witness:
  "\<exists>self'. generateActions scenarioOracle flatPlan =
       Inr ([\<lparr>timestamp = 0, target = Positioner 2, payload = MoveAbsolute 0\<rparr>,
             \<lparr>timestamp = 10, target = Positioner 2, payload = MoveAbsolute 0\<rparr>], self')
     \<and> sliceLoop scenarioOracle flatPlan = Inr (0, [], self', None)
     \<and> zPositioner flatPlan \<noteq> NoneHandler"
proof -
  obtain table self' where g: "generateActions scenarioOracle flatPlan = Inr (table, self')"
    and t: "table = [\<lparr>timestamp = 0, target = Positioner 2, payload = MoveAbsolute 0\<rparr>,
             \<lparr>timestamp = 10, target = Positioner 2, payload = MoveAbsolute 0\<rparr>]"
    using flatPlan_table by (cases "generateActions scenarioOracle flatPlan") auto
  from generateActions_return_phase [OF g] obtain c t0 p a b where
    z: "zPositioner flatPlan \<noteq> NoneHandler"
    and l: "sliceLoop scenarioOracle flatPlan = Inr (c, t0, self', p)"
    and tt: "table = t0 @ [a, b]"
    by blast
  have "map_sum id (\<lambda>(c, t, s, p). (c, t, p)) (sliceLoop scenarioOracle flatPlan) = Inr (0, [], None)"
    by code_simp
  then have "c = 0" "t0 = []" "p = None" using l by simp_all
  then show ?thesis using g t z l by auto
qed

subsection \<open>The two-angle scenario\<close>

text \<open>
  Claim C4, as stated, fails: with \<open>zHeight = 0\<close> the plan of the scenario has no Z
  slice at all. The table holds the two entries of the return phase only: no light and
  no camera is triggered, and the final hold is at 10.
\<close>

theorem flatPlan_no_trigger:
  "map_sum id fst (generateActions scenarioOracle flatPlan) = Inr
     [\<lparr>timestamp = 0, target = Positioner 2, payload = MoveAbsolute 0\<rparr>,
      \<lparr>timestamp = 10, target = Positioner 2, payload = MoveAbsolute 0\<rparr>]
   \<and> numZSlices flatPlan = Inr 0 \<and> zHeight flatPlan = 0"
  by code_simp

lemma triggerClients_noClients: "noClients h \<Longrightarrow> triggerClients h c i table = Inr table"
  by (simp add: noClients_def triggerClients_def split: option.splits)

lemma length_mkSequence_2_1: "[0..<length (mkSequence 2 1)] = [0, Suc 0]"
  by code_simp

lemma scenario_sliceLoop:
  assumes cams: "cameras self = [Camera i]" and ls: "lights self = [Light j]"
    and e: "getExposureTime orc (Camera i) = 50"
    and g: "getTimeBetweenExposures orc (Camera i) = 10"
    and nc: "noClients (slmHandler self)" "noClients (rotorHandler self)"
    and sq: "sequence self = mkSequence 2 1"
    and one: "numZSlices self = Inr 1"
    and rdy: "cameraToIsReady self (Camera i) = Some True"
    and cnt: "cameraToImageCount self (Camera i) = Some n"
    and z: "zPositioner self = Positioner k"
  shows "sliceLoop orc self = Inr (130,
       [\<lparr>timestamp = 0, target = Positioner k, payload = MoveAbsolute (zStart self)\<rparr>,
        \<lparr>timestamp = 0, target = Light j, payload = SetDigital True\<rparr>,
        \<lparr>timestamp = 0, target = Camera i, payload = SetDigital True\<rparr>,
        \<lparr>timestamp = 65, target = Light j, payload = SetDigital True\<rparr>,
        \<lparr>timestamp = 65, target = Camera i, payload = SetDigital True\<rparr>,
        \<lparr>timestamp = 130, target = Positioner k, payload = MoveAbsolute (zStart self)\<rparr>],
       self\<lparr>cameraToImageCount := (cameraToImageCount self)(Camera i \<mapsto> n + 2)\<rparr>,
       Some (zStart self))"
proof -
  have reset: "resetPhase orc self = Inr (0, [])"
    by (simp add: resetPhase_def cams rdy)
  have mv: "zMove orc self (zStart self) (0, [], None) =
      Inr (0, [\<lparr>timestamp = 0, target = Positioner k, payload = MoveAbsolute (zStart self)\<rparr>],
           Some (zStart self))"
    by (simp add: zMove_def z addAction_def getLastActionFor_def)
  let ?t1 = "[\<lparr>timestamp = 0, target = Positioner k, payload = MoveAbsolute (zStart self)\<rparr>]"
  let ?t2 = "[\<lparr>timestamp = 0, target = Positioner k, payload = MoveAbsolute (zStart self)\<rparr>,
              \<lparr>timestamp = 0, target = Light j, payload = SetDigital True\<rparr>,
              \<lparr>timestamp = 0, target = Camera i, payload = SetDigital True\<rparr>]"
  let ?s1 = "self\<lparr>cameraToImageCount := (cameraToImageCount self)(Camera i \<mapsto> n + 1)\<rparr>"
  have e1: "expose (getTimeWhenCameraCanExpose orc) orc self 0 [Camera i] ?t1 = Inr (60, ?t2, ?s1)"
    by (simp add: expose_def ls e g cnt triggerCamera_def addAction_def getLastActionFor_def
          getTimeWhenCameraCanExpose_def)
  have st1: "sequenceStep orc 0 (0, ?t1, self) = Inr (65, ?t2, ?s1)"
    by (simp add: sequenceStep_def triggerClients_noClients nc cams e1)
  let ?t3 = "[\<lparr>timestamp = 0, target = Positioner k, payload = MoveAbsolute (zStart self)\<rparr>,
              \<lparr>timestamp = 0, target = Light j, payload = SetDigital True\<rparr>,
              \<lparr>timestamp = 0, target = Camera i, payload = SetDigital True\<rparr>,
              \<lparr>timestamp = 65, target = Light j, payload = SetDigital True\<rparr>,
              \<lparr>timestamp = 65, target = Camera i, payload = SetDigital True\<rparr>]"
  let ?s2 = "self\<lparr>cameraToImageCount := (cameraToImageCount self)(Camera i \<mapsto> n + 2)\<rparr>"
  have e2: "expose (getTimeWhenCameraCanExpose orc) orc ?s1 65 [Camera i] ?t2 = Inr (125, ?t3, ?s2)"
    by (simp add: expose_def ls e g triggerCamera_def addAction_def getLastActionFor_def
          getTimeWhenCameraCanExpose_def ac_simps)
  have st2: "sequenceStep orc (Suc 0) (65, ?t2, ?s1) = Inr (130, ?t3, ?s2)"
    by (simp add: sequenceStep_def triggerClients_noClients nc cams e2)
  have loop: "forEachM (sequenceStep orc) [0..<length (sequence self)] (0, ?t1, self)
      = Inr (130, ?t3, ?s2)"
    unfolding sq length_mkSequence_2_1 by (simp add: st1 st2)
  let ?t4 = "[\<lparr>timestamp = 0, target = Positioner k, payload = MoveAbsolute (zStart self)\<rparr>,
              \<lparr>timestamp = 0, target = Light j, payload = SetDigital True\<rparr>,
              \<lparr>timestamp = 0, target = Camera i, payload = SetDigital True\<rparr>,
              \<lparr>timestamp = 65, target = Light j, payload = SetDigital True\<rparr>,
              \<lparr>timestamp = 65, target = Camera i, payload = SetDigital True\<rparr>,
              \<lparr>timestamp = 130, target = Positioner k, payload = MoveAbsolute (zStart self)\<rparr>]"
  have hold: "addAction 130 (zPositioner self) (MoveAbsolute (zStart self)) ?t3 = Inr ?t4"
    by (simp add: z addAction_def getLastActionFor_def)
  have slice: "zSlice orc 0 (0, [], self, None) = Inr (130, ?t4, ?s2, Some (zStart self))"
    unfolding zSlice_def by (simp add: Let_def mv loop hold)
  show ?thesis
    unfolding sliceLoop_def reset one by (simp add: rangeN_def slice)
qed

text \<open>
  Claim C4, amended. For a plan with one ready camera whose oracle reports exposure time
  50 and gap 10, one light, a Z positioner whose return move takes non-negative times,
  no pattern-generator clients, two angles and one phase, and exactly one Z slice (a
  stack height above 0: with \<open>zHeight = 0\<close> there is none), the table produced by
  \<open>generateActions\<close> contains exactly 2 light-plus-camera trigger pairs, at timestamps
  0 and 65, and its final hold is at a timestamp of at least 125.
\<close>

theorem scenario_two_trigger_pairs:
  assumes cams: "cameras self = [Camera i]" and ls: "lights self = [Light j]"
    and e: "getExposureTime orc (Camera i) = 50"
    and g: "getTimeBetweenExposures orc (Camera i) = 10"
    and nc: "noClients (slmHandler self)" "noClients (rotorHandler self)"
    and sq: "sequence self = mkSequence 2 1"
    and one: "numZSlices self = Inr 1"
    and rdy: "cameraToIsReady self (Camera i) = Some True"
    and cnt: "cameraToImageCount self (Camera i) = Some n"
    and z: "zPositioner self = Positioner k"
    and mv: "getMovementTime orc (Positioner k) (zHeight self) 0 = Some (m, s)"
    and nonneg: "0 \<le> m" "0 \<le> s"
  shows "\<exists>hold self'. generateActions orc self = Inr (
       [\<lparr>timestamp = 0, target = Positioner k, payload = MoveAbsolute (zStart self)\<rparr>,
        \<lparr>timestamp = 0, target = Light j, payload = SetDigital True\<rparr>,
        \<lparr>timestamp = 0, target = Camera i, payload = SetDigital True\<rparr>,
        \<lparr>timestamp = 65, target = Light j, payload = SetDigital True\<rparr>,
        \<lparr>timestamp = 65, target = Camera i, payload = SetDigital True\<rparr>,
        \<lparr>timestamp = 130, target = Positioner k, payload = MoveAbsolute (zStart self)\<rparr>,
        \<lparr>timestamp = 130 + m, target = Positioner k, payload = MoveAbsolute (zStart self)\<rparr>,
        \<lparr>timestamp = hold, target = Positioner k, payload = MoveAbsolute (zStart self)\<rparr>],
       self')
     \<and> 125 \<le> hold"
proof -
  let ?t = "[\<lparr>timestamp = 0, target = Positioner k, payload = MoveAbsolute (zStart self)\<rparr>,
        \<lparr>timestamp = 0, target = Light j, payload = SetDigital True\<rparr>,
        \<lparr>timestamp = 0, target = Camera i, payload = SetDigital True\<rparr>,
        \<lparr>timestamp = 65, target = Light j, payload = SetDigital True\<rparr>,
        \<lparr>timestamp = 65, target = Camera i, payload = SetDigital True\<rparr>,
        \<lparr>timestamp = 130, target = Positioner k, payload = MoveAbsolute (zStart self)\<rparr>]"
  let ?s2 = "self\<lparr>cameraToImageCount := (cameraToImageCount self)(Camera i \<mapsto> n + 2)\<rparr>"
  note l = scenario_sliceLoop [OF cams ls e g nc sq one rdy cnt z]
  have q: "handlerGetMovementTime orc (zPositioner ?s2) (zHeight ?s2) 0 = Inr (m, s)"
    by (simp add: handlerGetMovementTime_def z mv)
  let ?ret = "\<lparr>timestamp = 130 + m, target = Positioner k, payload = MoveAbsolute (zStart self)\<rparr>"
  have u: "upTo ?t (130 + m)" using nonneg by (simp add: upTo_def)
  have a1: "addAction (130 + m) (zPositioner ?s2) (MoveAbsolute (zStart ?s2)) ?t = Inr (?t @ [?ret])"
    using addAction_upTo [OF u] by (simp add: z)
  define hold where "hold = max (130 + m + s) (cameraReadyTime orc ?s2 (?t @ [?ret]))"
  have h: "130 + m \<le> hold" unfolding hold_def using nonneg by (intro max.coboundedI1) simp
  have "upTo (?t @ [?ret]) hold" using h nonneg by (simp add: upTo_def)
  from addAction_upTo [OF this]
  have a2: "addAction hold (zPositioner ?s2) (MoveAbsolute (zStart ?s2)) (?t @ [?ret])
      = Inr ((?t @ [?ret]) @
             [\<lparr>timestamp = hold, target = Positioner k, payload = MoveAbsolute (zStart self)\<rparr>])"
    by (simp add: z)
  have r: "returnPhase orc (130, ?t, ?s2) =
      Inr ((?t @ [?ret]) @
             [\<lparr>timestamp = hold, target = Positioner k, payload = MoveAbsolute (zStart self)\<rparr>], ?s2)"
    unfolding returnPhase_def
    by (simp only: prod.case q bindE_Inr a1 a2 hold_def [symmetric])
  have "generateActions orc self =
      Inr ((?t @ [?ret]) @
             [\<lparr>timestamp = hold, target = Positioner k, payload = MoveAbsolute (zStart self)\<rparr>], ?s2)"
    unfolding generateActions_def l by (simp only: bindE_Inr prod.case r)
  moreover have "125 \<le> hold" using h nonneg by simp
  ultimately show ?thesis by auto
qed

theorem scenario_two_trigger_pairs_witness:
  "\<exists>self'. generateActions scenarioOracle scenarioPlan = Inr (
       [\<lparr>timestamp = 0, target = Positioner 2, payload = MoveAbsolute 0\<rparr>,
        \<lparr>timestamp = 0, target = Light 0, payload = SetDigital True\<rparr>,
        \<lparr>timestamp = 0, target = Camera 0, payload = SetDigital True\<rparr>,
        \<lparr>timestamp = 65, target = Light 0, payload = SetDigital True\<rparr>,
        \<lparr>timestamp = 65, target = Camera 0, payload = SetDigital True\<rparr>,
        \<lparr>timestamp = 130, target = Positioner 2, payload = MoveAbsolute 0\<rparr>,
        \<lparr>timestamp = 130 + 1 / 1048576000, target = Positioner 2, payload = MoveAbsolute 0\<rparr>,
        \<lparr>timestamp = 140 + 1 / 1048576000, target = Positioner 2, payload = MoveAbsolute 0\<rparr>],
       self')"
proof -
  have one: "numZSlices scenarioPlan = Inr 1" by code_simp
  have mv: "getMovementTime scenarioOracle (Positioner 2) (zHeight scenarioPlan) 0
      = Some (1 / 1048576000, 10)" by code_simp
  from scenario_two_trigger_pairs [of scenarioPlan 0 0 scenarioOracle 0 2, OF _ _ _ _ _ _ _ one _ _ _ mv]
  obtain hold self' where g: "generateActions scenarioOracle scenarioPlan = Inr (
       [\<lparr>timestamp = 0, target = Positioner 2, payload = MoveAbsolute 0\<rparr>,
        \<lparr>timestamp = 0, target = Light 0, payload = SetDigital True\<rparr>,
        \<lparr>timestamp = 0, target = Camera 0, payload = SetDigital True\<rparr>,
        \<lparr>timestamp = 65, target = Light 0, payload = SetDigital True\<rparr>,
        \<lparr>timestamp = 65, target = Camera 0, payload = SetDigital True\<rparr>,
        \<lparr>timestamp = 130, target = Positioner 2, payload = MoveAbsolute 0\<rparr>,
        \<lparr>timestamp = 130 + 1 / 1048576000, target = Positioner 2, payload = MoveAbsolute 0\<rparr>,
        \<lparr>timestamp = hold, target = Positioner 2, payload = MoveAbsolute 0\<rparr>],
       self')"
    by (auto simp: scenarioPlan_def scenarioOracle_def noClients_def)
  have "map_sum id (map timestamp \<circ> fst) (generateActions scenarioOracle scenarioPlan) =
     Inr [0, 0, 0, 65, 65, 130, 130 + 1 / 1048576000, 140 + 1 / 1048576000]"
    by code_simp
  then have "hold = 140 + 1 / 1048576000" using g by simp
  then show ?thesis using g by blast
qed

subsection \<open>Determinism\<close>

text \<open>
  Claim C8. Two runs of \<open>generateActions\<close> with the same oracle on the same plan, from
  experiment objects that differ at most in the values of the image counters (the only
  state a run changes), end the same way: with the same exception, or with tables whose
  entry sequences are identical. In particular a second run on the object the first
  run has left produces the same table again.
\<close>

theorem generateActions_deterministic:
  assumes "sameButCounts self other"
  shows "map_sum id fst (generateActions orc self) = map_sum id fst (generateActions orc other)"
  using generateActions_rel [OF assms, of orc]
  by (cases "generateActions orc self"; cases "generateActions orc other")
     (auto simp: sameRun_def)

theorem generateActions_deterministic_witness:
  "\<exists>table self1 self2.
     generateActions scenarioOracle scenarioPlan = Inr (table, self1)
     \<and> generateActions scenarioOracle self1 = Inr (table, self2)
     \<and> timestampsFor table (Camera 0) = [0, 65]
     \<and> cameraToImageCount scenarioPlan (Camera 0) = Some 0
     \<and> cameraToImageCount self1 (Camera 0) = Some 2"
proof -
  obtain table self1 where g: "generateActions scenarioOracle scenarioPlan = Inr (table, self1)"
    using scenario_table by (cases "generateActions scenarioOracle scenarioPlan") auto
  have t: "timestampsFor table (Camera 0) = [0, 65]"
    using scenario_table g by (simp add: timestampsFor_def)
  have c: "cameraToImageCount self1 (Camera 0) = Some 2"
    using scenario_counts g by simp
  have c0: "cameraToImageCount scenarioPlan (Camera 0) = Some 0"
    by (simp add: scenarioPlan_def)
  note s = generateActions_sameButCounts [OF g]
  from generateActions_deterministic [OF s, of scenarioOracle] g
  obtain self2 where g2: "generateActions scenarioOracle self1 = Inr (table, self2)"
    by (cases "generateActions scenarioOracle self1") auto
  show ?thesis using g g2 t c c0 by blast
qed

end
